theory Spec2Isabelle
  imports Complex_Main
begin

section \<open>Image entropy methods (src/src/methods.py, src/main.py)\<close>

text \<open>
  The greyscale image is a two-dimensional integer array: a list of rows of pixels,
  every row of the same length (\<open>rect\<close>). Pixels are Python/NumPy integers as
  \<open>greyimg.astype(int)\<close> produces them, taken as unbounded \<open>int\<close>.
  Floating-point numbers are idealised: a finite float is a real number (\<open>Fin\<close>),
  and the three non-finite values of IEEE arithmetic are kept apart, so that a division
  by zero is visible in the model as \<open>NaN\<close>, \<open>PInf\<close> or \<open>NInf\<close> and is never
  the number HOL's total division would return. Rounding is not modelled.
\<close>

type_synonym image = "int list list"

datatype error = ValueError | AssertionError | IndexError | ZeroDivisionError
  | UnboundLocalError | ArgumentTypeError

datatype fl = Fin real | PInf | NInf | NaN

definition height :: "'a list list \<Rightarrow> nat" where
  "height g = length g"

definition width :: "'a list list \<Rightarrow> nat" where
  "width g = (case g of [] \<Rightarrow> 0 | r # _ \<Rightarrow> length r)"

definition rect :: "'a list list \<Rightarrow> bool" where
  "rect g = list_all (\<lambda>r. length r = width g) g"

subsection \<open>Python slices\<close>

text \<open>\<open>clip n i\<close> is the position a slice bound \<open>i\<close> denotes in a sequence of
  length \<open>n\<close>: a negative bound counts from the end, and every bound is clamped.\<close>

definition clip :: "nat \<Rightarrow> int \<Rightarrow> nat" where
  "clip n i = (if i < 0 then nat (max 0 (int n + i)) else min n (nat i))"

definition slice :: "int \<Rightarrow> int \<Rightarrow> 'a list \<Rightarrow> 'a list" where
  "slice lo hi xs = drop (clip (length xs) lo) (take (clip (length xs) hi) xs)"

definition slice_from :: "int \<Rightarrow> 'a list \<Rightarrow> 'a list" where
  "slice_from lo xs = drop (clip (length xs) lo) xs"

definition slice_to :: "int \<Rightarrow> 'a list \<Rightarrow> 'a list" where
  "slice_to hi xs = take (clip (length xs) hi) xs"

subsection \<open>Float division and masked logarithms\<close>

text \<open>NumPy's division of finite numbers: \<open>x / 0\<close> is \<open>nan\<close> for \<open>x = 0\<close> and an
  infinity otherwise (with a warning, not an exception).\<close>

definition fdiv :: "real \<Rightarrow> real \<Rightarrow> fl" where
  "fdiv x y = (if y \<noteq> 0 then Fin (x / y)
               else if x = 0 then NaN else if 0 < x then PInf else NInf)"

text \<open>Python's own \<open>/\<close> on numbers raises \<open>ZeroDivisionError\<close>.\<close>

definition truediv :: "real \<Rightarrow> real \<Rightarrow> error + real" where
  "truediv x y = (if y = 0 then Inl ZeroDivisionError else Inr (x / y))"

text \<open>\<open>p * -np.ma.log2(p)\<close> for one cell: \<open>np.ma.log2\<close> masks the cell where
  \<open>p \<le> 0\<close> or the logarithm is not finite; the product is masked where the logarithm
  is. \<open>None\<close> is a masked cell.\<close>

definition mlog2_term :: "fl \<Rightarrow> real option" where
  "mlog2_term p = (case p of Fin x \<Rightarrow> if 0 < x then Some (x * - log 2 x) else None
                    | _ \<Rightarrow> None)"

text \<open>\<open>p * np.ma.log(p)\<close> for one cell, with the natural logarithm.\<close>

definition mln_term :: "fl \<Rightarrow> real option" where
  "mln_term p = (case p of Fin x \<Rightarrow> if 0 < x then Some (x * ln x) else None
                  | _ \<Rightarrow> None)"

text \<open>The sum of a masked array: masked cells count as 0, and the sum of an array whose
  cells are all masked (an empty array too) is the constant \<open>masked\<close>, here \<open>None\<close>.
  The cells are added as exact reals: the order in which NumPy adds the doubles and the
  rounding of each addition are not modelled, so this sum cannot tell two orders of the
  same cells apart, and no property below rests on comparing them.\<close>

definition msum :: "real option list \<Rightarrow> real option" where
  "msum cs = (if list_all (\<lambda>c. c = None) cs then None
              else Some (sum_list (map (\<lambda>c. case c of None \<Rightarrow> 0 | Some v \<Rightarrow> v) cs)))"

subsection \<open>shannon2dr: sliding-window entropy\<close>

text \<open>\<open>round((kernsize - 1) / 2)\<close>: Python rounds a half to the even neighbour.\<close>

definition kernrad :: "int \<Rightarrow> int" where
  "kernrad kernsize = (let q = (kernsize - 1) div 2 in
     if (kernsize - 1) mod 2 = 0 then q else if even q then q else q + 1)"

text \<open>The flattened window of cell \<open>(i, j)\<close>: rows \<open>max 0 (i - r)\<close> up to, not
  including, \<open>min H (i + r)\<close>, and the same for the columns.\<close>

definition region :: "image \<Rightarrow> int \<Rightarrow> nat \<Rightarrow> nat \<Rightarrow> int list" where
  "region greyimg r i j =
     concat (map (slice (max 0 (int j - r)) (min (int (width greyimg)) (int j + r)))
                 (slice (max 0 (int i - r)) (min (int (height greyimg)) (int i + r)) greyimg))"

text \<open>A list comprehension whose element expression may raise stops at the first
  element that does.\<close>

fun collect :: "(error + 'a) list \<Rightarrow> error + 'a list" where
  "collect [] = Inr []"
| "collect (Inl e # _) = Inl e"
| "collect (Inr x # rs) = (case collect rs of Inl e \<Rightarrow> Inl e | Inr xs \<Rightarrow> Inr (x # xs))"

text \<open>\<open>probs = [np.size(region[region == v]) / size for v in set(region)]\<close>; the
  distinct values are taken in order of first occurrence.\<close>

definition probs :: "int list \<Rightarrow> error + real list" where
  "probs reg = collect (map (\<lambda>v. truediv (real (count_list reg v)) (real (length reg)))
                            (remdups reg))"

text \<open>\<open>entropy = np.sum([p * np.log2(1 / p) for p in probs])\<close>.\<close>

definition window_entropy :: "int list \<Rightarrow> error + real" where
  "window_entropy reg =
     (case probs reg of Inl e \<Rightarrow> Inl e
      | Inr ps \<Rightarrow>
          (case collect (map (\<lambda>p. case truediv 1 p of Inl e \<Rightarrow> Inl e
                                    | Inr q \<Rightarrow> Inr (p * log 2 q)) ps) of
             Inl e \<Rightarrow> Inl e
           | Inr ts \<Rightarrow> Inr (sum_list ts)))"

text \<open>Storing a float into an integer array converts it as C does: towards zero.\<close>

definition trunc_int :: "real \<Rightarrow> int" where
  "trunc_int x = (if 0 \<le> x then \<lfloor>x\<rfloor> else \<lceil>x\<rceil>)"

record s2state =
  entropies :: "real list"
  entimg :: image

definition store :: "image \<Rightarrow> nat \<Rightarrow> nat \<Rightarrow> int \<Rightarrow> image" where
  "store img i j v = img[i := (img ! i)[j := v]]"

fun cols_loop :: "image \<Rightarrow> int \<Rightarrow> nat \<Rightarrow> nat list \<Rightarrow> s2state \<Rightarrow> error + s2state" where
  "cols_loop greyimg r i [] s = Inr s"
| "cols_loop greyimg r i (j # js) s =
     (case window_entropy (region greyimg r i j) of
        Inl e \<Rightarrow> Inl e
      | Inr entropy \<Rightarrow>
          cols_loop greyimg r i js
            \<lparr>entropies = entropies s @ [entropy],
             entimg = store (entimg s) i j (trunc_int entropy)\<rparr>)"

fun rows_loop :: "image \<Rightarrow> int \<Rightarrow> nat list \<Rightarrow> s2state \<Rightarrow> error + s2state" where
  "rows_loop greyimg r [] s = Inr s"
| "rows_loop greyimg r (i # is) s =
     (case cols_loop greyimg r i [0..<width greyimg] s of
        Inl e \<Rightarrow> Inl e
      | Inr s' \<Rightarrow> rows_loop greyimg r is s')"

text \<open>\<open>np.average\<close> and \<open>np.std\<close> of a list: of the empty list both are \<open>nan\<close>.\<close>

definition average :: "real list \<Rightarrow> fl" where
  "average xs = fdiv (sum_list xs) (real (length xs))"

definition std :: "real list \<Rightarrow> fl" where
  "std xs = (case average xs of
               Fin m \<Rightarrow> (case average (map (\<lambda>x. \<bar>x - m\<bar> ^ 2) xs) of
                            Fin v \<Rightarrow> Fin (sqrt v) | _ \<Rightarrow> NaN)
             | _ \<Rightarrow> NaN)"

record s2result =
  s2_entimg :: image
  s2_entropies :: "real list"
  s2_average :: fl
  s2_std :: fl

definition shannon2dr :: "int \<Rightarrow> image \<Rightarrow> error + s2result" where
  "shannon2dr kernsize greyimg =
     (case rows_loop greyimg (kernrad kernsize) [0..<height greyimg]
             \<lparr>entropies = [], entimg = greyimg\<rparr> of
        Inl e \<Rightarrow> Inl e
      | Inr s \<Rightarrow> Inr \<lparr>s2_entimg = entimg s, s2_entropies = entropies s,
                      s2_average = average (entropies s), s2_std = std (entropies s)\<rparr>)"

subsection \<open>delentropy2d: the joint histogram of the gradient\<close>

text \<open>The difference of two arrays of the same shape, cell by cell.\<close>

definition arr_sub :: "image \<Rightarrow> image \<Rightarrow> image" where
  "arr_sub a b = map2 (map2 (\<lambda>x y. x - y)) a b"

definition arr_add :: "image \<Rightarrow> image \<Rightarrow> image" where
  "arr_add a b = map2 (map2 (\<lambda>x y. x + y)) a b"

text \<open>\<open>greyimg[:, 2:] - greyimg[:, :-2]\<close> and \<open>greyimg[2:, :] - greyimg[:-2, :]\<close>.\<close>

definition diff_axis1 :: "image \<Rightarrow> image" where
  "diff_axis1 greyimg = arr_sub (map (slice_from 2) greyimg) (map (slice_to (- 2)) greyimg)"

definition diff_axis0 :: "image \<Rightarrow> image" where
  "diff_axis0 greyimg = arr_sub (slice_from 2 greyimg) (slice_to (- 2) greyimg)"

text \<open>The shape fix: \<open>fx = fx[1:-1, :]\<close> and \<open>fy = fy[:, 1:-1]\<close>.\<close>

definition fx :: "image \<Rightarrow> image" where
  "fx greyimg = slice 1 (- 1) (diff_axis1 greyimg)"

definition fy :: "image \<Rightarrow> image" where
  "fy greyimg = map (slice 1 (- 1)) (diff_axis0 greyimg)"

text \<open>The crop as the specification words it: the first and last column of the
  axis-1 difference and the first and last row of the axis-0 difference are dropped.\<close>

definition spec_fx :: "image \<Rightarrow> image" where
  "spec_fx greyimg = map (slice 1 (- 1)) (diff_axis1 greyimg)"

definition spec_fy :: "image \<Rightarrow> image" where
  "spec_fy greyimg = slice 1 (- 1) (diff_axis0 greyimg)"

text \<open>\<open>np.max\<close> raises \<open>ValueError\<close> on an array with no element.\<close>

definition np_max :: "int list \<Rightarrow> error + int" where
  "np_max xs = (case xs of [] \<Rightarrow> Inl ValueError | x # r \<Rightarrow> Inr (fold max r x))"

text \<open>\<open>jrng = np.max([np.max(np.abs(fx)), np.max(np.abs(fy))])\<close>.\<close>

definition jrng_of :: "image \<Rightarrow> image \<Rightarrow> error + int" where
  "jrng_of gx gy =
     (case np_max (map abs (concat gx)) of
        Inl e \<Rightarrow> Inl e
      | Inr mx \<Rightarrow>
          (case np_max (map abs (concat gy)) of
             Inl e \<Rightarrow> Inl e
           | Inr my \<Rightarrow> np_max [mx, my]))"

text \<open>\<open>np.linspace lo hi (n + 1)\<close>: the \<open>n + 1\<close> edges of \<open>n\<close> bins of equal width;
  the last edge is \<open>hi\<close> itself.\<close>

definition linspace :: "real \<Rightarrow> real \<Rightarrow> nat \<Rightarrow> real list" where
  "linspace lo hi n = map (\<lambda>k. lo + real k * ((hi - lo) / real n)) [0..<n] @ [hi]"

text \<open>The bin of a sample, as \<open>np.histogramdd\<close> finds it: the number of edges not
  above the sample (\<open>searchsorted\<close> from the right), one less for a sample on the last
  edge. Bins \<open>1 .. n\<close> are inside the range; \<open>0\<close> and \<open>n + 1\<close> hold the outliers,
  which are dropped.\<close>

definition bin_index :: "real list \<Rightarrow> real \<Rightarrow> nat" where
  "bin_index edges x =
     (let c = length (filter (\<lambda>e. e \<le> x) edges) in if x = last edges then c - 1 else c)"

text \<open>\<open>np.histogram2d xs ys, bins = n, range = [[lo, hi], [lo, hi]]\<close>; a range with
  \<open>lo = hi\<close> is widened by one half on each side.\<close>

definition hist_edges :: "nat \<Rightarrow> real \<Rightarrow> real \<Rightarrow> real list" where
  "hist_edges nbins lo hi =
     (if lo = hi then linspace (lo - 1 / 2) (hi + 1 / 2) nbins else linspace lo hi nbins)"

definition histogram2d :: "int list \<Rightarrow> int list \<Rightarrow> nat \<Rightarrow> real \<Rightarrow> real \<Rightarrow> nat list list" where
  "histogram2d xs ys nbins lo hi =
     (let edges = hist_edges nbins lo hi;
          idx = map (\<lambda>(x, y). (bin_index edges (real_of_int x), bin_index edges (real_of_int y)))
                    (zip xs ys)
      in map (\<lambda>a. map (\<lambda>b. length (filter (\<lambda>p. p = (Suc a, Suc b)) idx)) [0..<nbins])
             [0..<nbins])"

record del_result =
  del_jrng :: int
  del_hist :: "nat list list"
  del_deldensity :: "real option list list"
  del_entropy :: "real option"
  del_gradimg :: image

text \<open>Lines 102 to 133 of methods.py, on the cropped gradient pair. \<open>deldensity\<close> is
  the array after \<open>deldensity * -np.ma.log2(deldensity)\<close>; the entropy is its masked
  sum, halved.\<close>

definition delentropy_of :: "image \<Rightarrow> image \<Rightarrow> error + del_result" where
  "delentropy_of gx gy =
     (let grad = arr_add gx gy in
      case jrng_of gx gy of
        Inl e \<Rightarrow> Inl e
      | Inr jrng \<Rightarrow>
          if jrng \<le> 255 then
            (let hist = histogram2d (concat gx) (concat gy) (nat (2 * jrng + 1))
                          (real_of_int (- jrng)) (real_of_int jrng);
                 total = sum_list (map real (concat hist));
                 deldensity = map (map (\<lambda>h. mlog2_term (fdiv (real h) total))) hist;
                 entropy = map_option (\<lambda>e. e / 2) (msum (concat deldensity))
             in Inr \<lparr>del_jrng = jrng, del_hist = hist, del_deldensity = deldensity,
                      del_entropy = entropy,
                      del_gradimg = map (map (\<lambda>v. - v - 1)) grad\<rparr>)
          else Inl AssertionError)"

definition delentropy2d :: "image \<Rightarrow> error + del_result" where
  "delentropy2d greyimg = delentropy_of (fx greyimg) (fy greyimg)"

subsection \<open>shannon1d and scipy1d: the intensities as a probability vector\<close>

record s1_result =
  s1_signal :: "fl list list"
  s1_entimg :: "real option list list"
  s1_entropy :: "real option"

text \<open>\<open>signal = greyimg / greyimg.sum()\<close>, \<open>entimg = signal * -np.ma.log2(signal)\<close>,
  \<open>entropy = entimg.sum()\<close>.\<close>

definition shannon1d :: "image \<Rightarrow> s1_result" where
  "shannon1d greyimg =
     (let signal = map (map (\<lambda>v. fdiv (real_of_int v) (real_of_int (sum_list (concat greyimg)))))
                       greyimg;
          entimg = map (map mlog2_term) signal;
          entropy = msum (concat entimg)
      in \<lparr>s1_signal = signal, s1_entimg = entimg, s1_entropy = entropy\<rparr>)"

text \<open>\<open>signal = greyimg.flatten() / greyimg.sum()\<close> of scipy1d; the entropy routine of
  SciPy it is passed to is a library function outside this model.\<close>

definition scipy1d_signal :: "image \<Rightarrow> fl list" where
  "scipy1d_signal greyimg =
     map (\<lambda>v. fdiv (real_of_int v) (real_of_int (sum_list (concat greyimg)))) (concat greyimg)"

subsection \<open>Arithmetic on floats that need not be finite\<close>

fun fneg :: "fl \<Rightarrow> fl" where
  "fneg (Fin x) = Fin (- x)"
| "fneg PInf = NInf"
| "fneg NInf = PInf"
| "fneg NaN = NaN"

fun fadd :: "fl \<Rightarrow> fl \<Rightarrow> fl" where
  "fadd (Fin x) (Fin y) = Fin (x + y)"
| "fadd NaN _ = NaN"
| "fadd _ NaN = NaN"
| "fadd PInf NInf = NaN"
| "fadd NInf PInf = NaN"
| "fadd PInf _ = PInf"
| "fadd _ PInf = PInf"
| "fadd NInf _ = NInf"
| "fadd _ NInf = NInf"

definition inf_times :: "bool \<Rightarrow> real \<Rightarrow> fl" where
  "inf_times positive y =
     (if y = 0 then NaN else if (0 < y) = positive then PInf else NInf)"

fun fmul :: "fl \<Rightarrow> fl \<Rightarrow> fl" where
  "fmul (Fin x) (Fin y) = Fin (x * y)"
| "fmul NaN _ = NaN"
| "fmul _ NaN = NaN"
| "fmul PInf (Fin y) = inf_times True y"
| "fmul NInf (Fin y) = inf_times False y"
| "fmul (Fin x) PInf = inf_times True x"
| "fmul (Fin x) NInf = inf_times False x"
| "fmul PInf PInf = PInf"
| "fmul NInf NInf = PInf"
| "fmul PInf NInf = NInf"
| "fmul NInf PInf = NInf"

text \<open>\<open>np.log\<close>: \<open>-inf\<close> at 0 and \<open>nan\<close> below.\<close>

fun flog :: "fl \<Rightarrow> fl" where
  "flog (Fin x) = (if 0 < x then Fin (ln x) else if x = 0 then NInf else NaN)"
| "flog PInf = PInf"
| "flog NInf = NaN"
| "flog NaN = NaN"

text \<open>\<open>a > b\<close>: false whenever an operand is \<open>nan\<close>.\<close>

fun fgt :: "fl \<Rightarrow> fl \<Rightarrow> bool" where
  "fgt (Fin x) (Fin y) = (y < x)"
| "fgt NaN _ = False"
| "fgt _ NaN = False"
| "fgt PInf PInf = False"
| "fgt PInf _ = True"
| "fgt NInf _ = False"
| "fgt (Fin x) PInf = False"
| "fgt (Fin x) NInf = True"

text \<open>\<open>np.sum\<close> of a plain array; of an empty one it is 0.\<close>

definition fsum :: "fl list \<Rightarrow> fl" where
  "fsum xs = fold (\<lambda>x acc. fadd acc x) xs (Fin 0)"

subsection \<open>kapur1d: the threshold of maximal entropy\<close>

text \<open>\<open>np.histogram(greyimg, bins=256, range=(0, 256))[0]\<close>: bin \<open>b\<close> counts the
  pixels equal to \<open>b\<close>; the last bin is closed on the right and so counts 256 too;
  pixels outside the range are not counted.\<close>

definition histogram256 :: "int list \<Rightarrow> nat list" where
  "histogram256 vs =
     map (\<lambda>b. length (filter (\<lambda>v. v = int b \<or> (b = 255 \<and> v = 256)) vs)) [0..<256]"

fun cumsum_from :: "real \<Rightarrow> real list \<Rightarrow> real list" where
  "cumsum_from acc [] = []"
| "cumsum_from acc (x # xs) = (acc + x) # cumsum_from (acc + x) xs"

definition cumsum :: "real list \<Rightarrow> real list" where
  "cumsum xs = cumsum_from 0 xs"

text \<open>\<open>binrng = np.nonzero(hist)[0][[0, -1]]\<close>: the first and the last nonzero bin;
  indexing the empty array raises \<open>IndexError\<close>.\<close>

definition binrng :: "nat list \<Rightarrow> error + nat \<times> nat" where
  "binrng hist =
     (case filter (\<lambda>b. hist ! b \<noteq> 0) [0..<length hist] of
        [] \<Rightarrow> Inl IndexError
      | b # bs \<Rightarrow> Inr (b, last (b # bs)))"

text \<open>Lines 40 and 41: the entropy of the low partition \<open>hist[: i + 1] / cdf[i]\<close>,
  a masked sum (\<open>None\<close> is the constant \<open>masked\<close>).\<close>

definition low_entropy :: "nat list \<Rightarrow> real list \<Rightarrow> nat \<Rightarrow> real option" where
  "low_entropy hist cdf i =
     map_option uminus
       (msum (map (\<lambda>h. mln_term (fdiv (real h) (cdf ! i))) (take (i + 1) hist)))"

text \<open>Lines 43 and 44: the nonzero bins above \<open>i\<close>, divided by \<open>cdf[binrng[1]] - cdf[i]\<close>.\<close>

definition high_part :: "nat list \<Rightarrow> real list \<Rightarrow> nat \<Rightarrow> nat \<Rightarrow> fl list" where
  "high_part hist cdf hi i =
     map (\<lambda>h. fdiv (real h) (cdf ! hi - cdf ! i)) (filter (\<lambda>h. h \<noteq> 0) (drop (i + 1) hist))"

text \<open>Line 45: \<open>np.sum(histrng * np.log(histrng))\<close>, a plain sum.\<close>

definition high_sum :: "nat list \<Rightarrow> real list \<Rightarrow> nat \<Rightarrow> nat \<Rightarrow> fl" where
  "high_sum hist cdf hi i = fsum (map (\<lambda>p. fmul p (flog p)) (high_part hist cdf hi i))"

text \<open>The entropy of candidate \<open>i\<close> after line 45; \<open>masked - x\<close> is \<open>masked\<close>.\<close>

definition cand_entropy :: "nat list \<Rightarrow> real list \<Rightarrow> nat \<Rightarrow> nat \<Rightarrow> fl option" where
  "cand_entropy hist cdf hi i =
     (case low_entropy hist cdf i of
        None \<Rightarrow> None
      | Some e \<Rightarrow> Some (fadd (Fin e) (fneg (high_sum hist cdf hi i))))"

text \<open>The loop state: \<open>entropy\<close> is unbound before the first iteration (outer \<open>None\<close>).\<close>

record kstate =
  k_entropy :: "fl option option"
  k_entropymax :: fl
  k_threshold :: nat

text \<open>One pass of the loop body for each candidate; \<open>masked > x\<close> is \<open>masked\<close>, which
  is false as a condition.\<close>

fun kapur_loop :: "nat list \<Rightarrow> real list \<Rightarrow> nat \<Rightarrow> nat list \<Rightarrow> kstate \<Rightarrow> kstate" where
  "kapur_loop hist cdf hi [] s = s"
| "kapur_loop hist cdf hi (i # is) s =
     kapur_loop hist cdf hi is
       (case cand_entropy hist cdf hi i of
          None \<Rightarrow> s\<lparr>k_entropy := Some None\<rparr>
        | Some entropy \<Rightarrow>
            if fgt entropy (k_entropymax s)
            then \<lparr>k_entropy = Some (Some entropy), k_entropymax = entropy, k_threshold = i\<rparr>
            else s\<lparr>k_entropy := Some (Some entropy)\<rparr>)"

text \<open>What kapur1d logs (\<open>entropy\<close>, \<open>threshold\<close>) and returns (\<open>entimg\<close>), and the
  running maximum \<open>entropymax\<close> it holds when the loop ends.\<close>

record kapur_result =
  kr_entropy :: "fl option"
  kr_threshold :: nat
  kr_entropymax :: fl
  kr_entimg :: image

definition kapur1d :: "image \<Rightarrow> error + kapur_result" where
  "kapur1d greyimg =
     (let hist = histogram256 (concat greyimg);
          cdf = cumsum (map real hist)
      in case binrng hist of
           Inl e \<Rightarrow> Inl e
         | Inr (lo, hi) \<Rightarrow>
             (let s = kapur_loop hist cdf hi [lo..<hi + 1]
                        \<lparr>k_entropy = None, k_entropymax = Fin 0, k_threshold = 0\<rparr>
              in case k_entropy s of
                   None \<Rightarrow> Inl UnboundLocalError
                 | Some entropy \<Rightarrow>
                     Inr \<lparr>kr_entropy = entropy, kr_threshold = k_threshold s,
                          kr_entropymax = k_entropymax s,
                          kr_entimg = map (map (\<lambda>v. if v < int (k_threshold s) then v else 0))
                                          greyimg\<rparr>))"

subsection \<open>The method names: strtofunc (methods.py) and argtypemethod (main.py)\<close>

datatype entropy_method = Kapur1d | Scipy1d | Shannon1d | Delentropy2d | Gradient2d
  | Scikit2dr | Shannon2dr

definition strtofunc :: "(string \<times> entropy_method) list" where
  "strtofunc =
     [(''1d-kapur'', Kapur1d), (''1d-scipy'', Scipy1d), (''1d-shannon'', Shannon1d),
      (''2d-delentropy'', Delentropy2d), (''2d-gradient'', Gradient2d),
      (''2d-regional-scikit'', Scikit2dr), (''2d-regional-shannon'', Shannon2dr)]"

text \<open>\<open>default = "2d-delentropy"\<close> of methods.py.\<close>

definition default_method :: string where
  "default_method = ''2d-delentropy''"

text \<open>The \<open>type\<close> function of the \<open>--method\<close> argument in main.py, and the argument's
  default there.\<close>

definition argtypemethod :: "string \<Rightarrow> error + string" where
  "argtypemethod val =
     (if val \<noteq> ''pseudo-spatial'' \<and> val \<noteq> ''2d-delentropy'' \<and> val \<noteq> ''2d-gradient''
      then Inl ArgumentTypeError else Inr val)"

definition main_default_method :: string where
  "main_default_method = ''2d-delentropy''"

subsection \<open>Closed forms used in the proofs\<close>

text \<open>The probability the window assigns to a value, and the entropy of a window,
  as the numbers the code computes when no division raises.\<close>

definition prob_of :: "int list \<Rightarrow> int \<Rightarrow> real" where
  "prob_of reg v = real (count_list reg v) / real (length reg)"

definition went :: "int list \<Rightarrow> real" where
  "went reg = sum_list (map (\<lambda>v. prob_of reg v * log 2 (1 / prob_of reg v)) (remdups reg))"

text \<open>The number of gradient pairs that fall into bin \<open>(a, b)\<close> when bin \<open>a\<close> of an
  axis is the integer \<open>a - J\<close>; the grid of these counts; and the density and entropy
  steps of delentropy2d as functions of the histogram.\<close>

definition pair_count :: "int \<Rightarrow> (int \<times> int) list \<Rightarrow> nat \<Rightarrow> nat \<Rightarrow> nat" where
  "pair_count J zs a b = length (filter (\<lambda>p. p = (int a - J, int b - J)) zs)"

definition hist_grid :: "int \<Rightarrow> (int \<times> int) list \<Rightarrow> nat list list" where
  "hist_grid J zs = map (\<lambda>a. map (\<lambda>b. pair_count J zs a b) [0..<nat (2 * J + 1)])
                        [0..<nat (2 * J + 1)]"

definition density_of_hist :: "nat list list \<Rightarrow> real option list list" where
  "density_of_hist hist =
     map (map (\<lambda>h. mlog2_term (fdiv (real h) (sum_list (map real (concat hist)))))) hist"

definition entropy_of_hist :: "nat list list \<Rightarrow> real option" where
  "entropy_of_hist hist = map_option (\<lambda>e. e / 2) (msum (concat (density_of_hist hist)))"

section \<open>Properties\<close>

subsection \<open>shannon2dr: the loops in closed form\<close>

lemma kernrad_odd: "kernrad (2 * r + 1) = r"
  by (simp add: kernrad_def)

lemma collect_map_cong_Inr:
  "(\<And>x. x \<in> set xs \<Longrightarrow> f x = Inr (g x)) \<Longrightarrow> collect (map f xs) = Inr (map g xs)"
  by (induction xs) simp_all

lemma count_list_pos: "v \<in> set reg \<Longrightarrow> 0 < count_list reg v"
  by (induction reg) auto

lemma prob_of_pos: "v \<in> set reg \<Longrightarrow> 0 < prob_of reg v"
  unfolding prob_of_def using count_list_pos[of v reg]
  by (cases reg) (auto intro!: divide_pos_pos)

lemma probs_eq: "probs reg = Inr (map (prob_of reg) (remdups reg))"
  unfolding probs_def
proof (rule collect_map_cong_Inr)
  fix v assume "v \<in> set (remdups reg)"
  then have "reg \<noteq> []" by auto
  then show "truediv (real (count_list reg v)) (real (length reg)) = Inr (prob_of reg v)"
    by (simp add: truediv_def prob_of_def)
qed

lemma window_entropy_eq: "window_entropy reg = Inr (went reg)"
proof -
  have "collect (map (\<lambda>p. case truediv 1 p of Inl e \<Rightarrow> Inl e | Inr q \<Rightarrow> Inr (p * log 2 q))
                     (map (prob_of reg) (remdups reg)))
        = Inr (map (\<lambda>p. p * log 2 (1 / p)) (map (prob_of reg) (remdups reg)))"
  proof (rule collect_map_cong_Inr)
    fix p assume "p \<in> set (map (prob_of reg) (remdups reg))"
    then have "0 < p" using prob_of_pos by auto
    then show "(case truediv 1 p of Inl e \<Rightarrow> Inl e | Inr q \<Rightarrow> Inr (p * log 2 q))
               = Inr (p * log 2 (1 / p))"
      by (simp add: truediv_def)
  qed
  then show ?thesis
    by (simp add: window_entropy_def probs_eq went_def comp_def)
qed

lemma cols_loop_eq:
  "cols_loop g r i js s =
     Inr \<lparr>entropies = entropies s @ map (\<lambda>j. went (region g r i j)) js,
          entimg = fold (\<lambda>j img. store img i j (trunc_int (went (region g r i j)))) js
                     (entimg s)\<rparr>"
  by (induction js arbitrary: s) (simp_all add: window_entropy_eq)

lemma rows_loop_eq:
  "rows_loop g r is s =
     Inr \<lparr>entropies = entropies s @
            concat (map (\<lambda>i. map (\<lambda>j. went (region g r i j)) [0..<width g]) is),
          entimg = fold (\<lambda>i img. fold (\<lambda>j img. store img i j
                      (trunc_int (went (region g r i j)))) [0..<width g] img) is (entimg s)\<rparr>"
  by (induction "is" arbitrary: s) (simp_all add: cols_loop_eq)

lemma fold_row_update:
  "n \<le> length row \<Longrightarrow>
   fold (\<lambda>j row. row[j := f j]) [0..<n] row = map f [0..<n] @ drop n row"
proof (induction n)
  case 0 then show ?case by simp
next
  case (Suc n)
  then have n: "n < length row" by simp
  have "fold (\<lambda>j row. row[j := f j]) [0..<Suc n] row = (map f [0..<n] @ drop n row)[n := f n]"
    using Suc by simp
  also have "\<dots> = map f [0..<n] @ (drop n row)[0 := f n]"
    by (simp add: list_update_append)
  also have "drop n row = row ! n # drop (Suc n) row"
    using n by (simp add: Cons_nth_drop_Suc)
  finally show ?case by simp
qed

lemma fold_store_row:
  "i < length img \<Longrightarrow>
   fold (\<lambda>j img. store img i j (f j)) js img
   = img[i := fold (\<lambda>j row. row[j := f j]) js (img ! i)]"
  by (induction js arbitrary: img) (simp_all add: store_def)

lemma fold_store_prefix:
  assumes "\<And>i. i < length g \<Longrightarrow> length (img ! i) = width g"
    and "length img = length g"
  shows "n \<le> length g \<Longrightarrow>
     fold (\<lambda>i img. fold (\<lambda>j img. store img i j (f i j)) [0..<width g] img) [0..<n] img
     = map (\<lambda>i. map (f i) [0..<width g]) [0..<n] @ drop n img"
proof (induction n)
  case 0 then show ?case by simp
next
  case (Suc n)
  then have n: "n < length img" using assms(2) by simp
  let ?pre = "map (\<lambda>i. map (f i) [0..<width g]) [0..<n]"
  have a: "fold (\<lambda>i img. fold (\<lambda>j img. store img i j (f i j)) [0..<width g] img)
             [0..<Suc n] img
          = fold (\<lambda>j img. store img n j (f n j)) [0..<width g] (?pre @ drop n img)"
    using Suc by simp
  have b: "(?pre @ drop n img) ! n = img ! n" using n by (simp add: nth_append)
  have c: "fold (\<lambda>j img. store img n j (f n j)) [0..<width g] (?pre @ drop n img)
          = (?pre @ drop n img)[n := fold (\<lambda>j row. row[j := f n j]) [0..<width g] (img ! n)]"
    using n by (subst fold_store_row) (simp_all add: b)
  have d: "fold (\<lambda>j row. row[j := f n j]) [0..<width g] (img ! n) = map (f n) [0..<width g]"
    using assms n by (subst fold_row_update) simp_all
  have e: "drop n img = img ! n # drop (Suc n) img"
    using n by (simp add: Cons_nth_drop_Suc)
  show ?case
    unfolding a c d by (simp add: list_update_append e)
qed

lemma rect_row_length: "rect g \<Longrightarrow> i < length g \<Longrightarrow> length (g ! i) = width g"
  by (simp add: rect_def list_all_length)

lemma fold_store_all:
  assumes "rect g"
  shows "fold (\<lambda>i img. fold (\<lambda>j img. store img i j (f i j)) [0..<width g] img)
           [0..<height g] g
         = map (\<lambda>i. map (f i) [0..<width g]) [0..<height g]"
  using fold_store_prefix[of g g "length g" f] rect_row_length[OF assms]
  by (simp add: height_def)

lemma shannon2dr_eq:
  assumes "rect g"
  shows "shannon2dr k g =
     Inr \<lparr>s2_entimg = map (\<lambda>i. map (\<lambda>j. trunc_int (went (region g (kernrad k) i j)))
                                [0..<width g]) [0..<height g],
          s2_entropies = concat (map (\<lambda>i. map (\<lambda>j. went (region g (kernrad k) i j))
                                [0..<width g]) [0..<height g]),
          s2_average = average (concat (map (\<lambda>i. map (\<lambda>j. went (region g (kernrad k) i j))
                                [0..<width g]) [0..<height g])),
          s2_std = std (concat (map (\<lambda>i. map (\<lambda>j. went (region g (kernrad k) i j))
                                [0..<width g]) [0..<height g]))\<rparr>"
  by (simp add: shannon2dr_def rows_loop_eq fold_store_all[OF assms])

lemma length_concat_grid:
  "length (concat (map (\<lambda>i. map (f i) [0..<w]) [0..<h])) = h * w"
  by (induction h) simp_all

lemma concat_grid_nth:
  "i < h \<Longrightarrow> j < w \<Longrightarrow> concat (map (\<lambda>i. map (f i) [0..<w]) [0..<h]) ! (i * w + j) = f i j"
proof (induction h)
  case 0 then show ?case by simp
next
  case (Suc h)
  show ?case
  proof (cases "i < h")
    case True
    then have "Suc i \<le> h" by simp
    then have "Suc i * w \<le> h * w" by (rule mult_le_mono1)
    then have "i * w + j < h * w" using Suc.prems(2) by simp
    then show ?thesis using Suc True by (simp add: nth_append length_concat_grid)
  next
    case False
    then have "i = h" using Suc.prems by simp
    then show ?thesis using Suc.prems by (simp add: nth_append length_concat_grid)
  qed
qed

lemma log2_4: "log 2 4 = (2::real)"
proof -
  have "log 2 4 = log 2 (2 ^ 2)" by simp
  also have "\<dots> = 2" by (subst log_nat_power) simp_all
  finally show ?thesis .
qed

subsection \<open>Claims about shannon2dr\<close>

lemma went_3x3_center: "went [1,2,4,5] = 2"
  by (simp add: went_def prob_of_def log2_4)

lemma log2_9_gt: "(2::real) < log 2 9"
proof -
  have "log 2 4 < log 2 (9::real)" by simp
  then show ?thesis by (simp add: log2_4)
qed


text \<open>
  Claim C1. The claim reads: each cell of the map holds the entropy of the k-by-k window
  centred at the cell, so that on a 3x3 image of nine distinct values with kernel size 3
  the centre cell is \<open>log 2 9\<close>. The code's window ends one row and one column early
  (the slice's upper bound \<open>i + kernrad\<close> is exclusive): at the centre of that image the
  window is the four values of rows 0..1 and columns 0..1, the entropy computed is 2,
  the value stored is 2, and neither is \<open>log 2 9\<close>.
\<close>

theorem shannon2dr_3x3_center:
  "case shannon2dr 3 [[1,2,3],[4,5,6],[7,8,9]] of Inl _ \<Rightarrow> False
   | Inr res \<Rightarrow> s2_entropies res ! 4 = 2 \<and> s2_entimg res ! 1 ! 1 = 2 \<and> s2_entropies res ! 4 \<noteq> log 2 9"
proof -
  let ?g = "[[1,2,3],[4,5,6],[7,8,9::int]]"
  have r: "rect ?g" by (simp add: rect_def width_def)
  have w: "width ?g = 3" "height ?g = 3"
    by (simp_all add: width_def height_def)
  have reg: "region ?g (kernrad 3) 1 1 = [1,2,4,5]"
    by (simp add: region_def kernrad_def slice_def clip_def height_def width_def)
  have e: "went (region ?g (kernrad 3) 1 1) = 2"
    by (simp only: reg went_3x3_center)
  have "concat (map (\<lambda>i. map (\<lambda>j. went (region ?g (kernrad 3) i j)) [0..<3]) [0..<3]) ! (1 * 3 + 1)
        = went (region ?g (kernrad 3) 1 1)"
    by (rule concat_grid_nth) simp_all
  then have n4: "concat (map (\<lambda>i. map (\<lambda>j. went (region ?g (kernrad 3) i j)) [0..<3]) [0..<3]) ! 4 = 2"
    by (simp only: e) simp
  have m: "map (\<lambda>i. map (\<lambda>j. trunc_int (went (region ?g (kernrad 3) i j))) [0..<3]) [0..<3] ! 1 ! 1
      = trunc_int (went (region ?g (kernrad 3) 1 1))"
    by simp
  have m2: "map (\<lambda>i. map (\<lambda>j. trunc_int (went (region ?g (kernrad 3) i j))) [0..<3]) [0..<3] ! 1 ! 1 = 2"
    by (simp only: m e) (simp add: trunc_int_def)
  show ?thesis
    using log2_9_gt by (simp add: shannon2dr_eq[OF r] w n4 e trunc_int_def del: One_nat_def)
qed


subsection \<open>delentropy2d: the gradient pair\<close>

lemma slice_from_2: "slice_from 2 xs = drop 2 xs"
  by (simp add: slice_from_def clip_def min_def)

lemma slice_to_m2: "slice_to (- 2) xs = take (length xs - 2) xs"
  by (simp add: slice_to_def clip_def nat_diff_distrib' max_def) 

lemma slice_1_m1: "slice 1 (- 1) xs = butlast (tl xs)"
proof -
  have "slice 1 (- 1) xs = drop 1 (take (length xs - 1) xs)"
    by (cases xs) (simp_all add: slice_def clip_def max_def nat_diff_distrib')
  also have "\<dots> = butlast (tl xs)"
    by (cases xs) (simp_all add: butlast_conv_take drop_take)
  finally show ?thesis .
qed

lemma length_arr_sub: "length (arr_sub a b) = min (length a) (length b)"
  by (simp add: arr_sub_def)

lemma diff_axis1_length: "length (diff_axis1 g) = length g"
  by (simp add: diff_axis1_def arr_sub_def)

lemma diff_axis1_row:
  "i < length g \<Longrightarrow> diff_axis1 g ! i = map2 (\<lambda>x y. x - y) (drop 2 (g ! i)) (take (length (g ! i) - 2) (g ! i))"
  by (simp add: diff_axis1_def arr_sub_def slice_from_2 slice_to_m2)

lemma diff_axis1_cell:
  "i < length g \<Longrightarrow> j < length (g ! i) - 2 \<Longrightarrow> diff_axis1 g ! i ! j = g ! i ! (j + 2) - g ! i ! j"
  by (simp add: diff_axis1_row add.commute)

lemma diff_axis0_length: "length (diff_axis0 g) = length g - 2"
  by (simp add: diff_axis0_def arr_sub_def slice_from_2 slice_to_m2)

lemma diff_axis0_row:
  "i < length g - 2 \<Longrightarrow> diff_axis0 g ! i = map2 (\<lambda>x y. x - y) (g ! (i + 2)) (g ! i)"
  by (simp add: diff_axis0_def arr_sub_def slice_from_2 slice_to_m2 add.commute)

lemma nth_butlast_tl: "i < length xs - 2 \<Longrightarrow> butlast (tl xs) ! i = xs ! (i + 1)"
  by (simp add: nth_butlast nth_tl)

lemma fx_length: "length (fx g) = length g - 2"
  by (simp add: fx_def slice_1_m1 diff_axis1_length)

lemma fy_length: "length (fy g) = length g - 2"
  by (simp add: fy_def diff_axis0_length)

lemma fx_row: "i < length g - 2 \<Longrightarrow> fx g ! i = diff_axis1 g ! (i + 1)"
  by (simp add: fx_def slice_1_m1 nth_butlast_tl diff_axis1_length)

lemma fy_row: "i < length g - 2 \<Longrightarrow> fy g ! i = butlast (tl (diff_axis0 g ! i))"
  by (simp add: fy_def slice_1_m1 diff_axis0_length)

text \<open>
  Claim C4, as the code has it. For every rectangular image, \<open>fx\<close> is the difference
  along axis 1 and \<open>fy\<close> the difference along axis 0, each the central difference
  \<open>f(n + 1) - f(n - 1)\<close>; the crop drops the first and last row of \<open>fx\<close> and the first
  and last column of \<open>fy\<close>; after it both arrays have \<open>height - 2\<close> rows of
  \<open>width - 2\<close> cells, and cell \<open>(i, j)\<close> is the difference centred at pixel
  \<open>(i + 1, j + 1)\<close> of the image.
\<close>

theorem gradient_crop_shapes:
  assumes "rect greyimg"
  shows "fx greyimg = butlast (tl (diff_axis1 greyimg))
     \<and> fy greyimg = map (\<lambda>r. butlast (tl r)) (diff_axis0 greyimg)
     \<and> length (fx greyimg) = height greyimg - 2
     \<and> length (fy greyimg) = height greyimg - 2
     \<and> (\<forall>i < height greyimg - 2.
           length (fx greyimg ! i) = width greyimg - 2
         \<and> length (fy greyimg ! i) = width greyimg - 2
         \<and> (\<forall>j < width greyimg - 2.
               fx greyimg ! i ! j = greyimg ! (i + 1) ! (j + 2) - greyimg ! (i + 1) ! j
             \<and> fy greyimg ! i ! j = greyimg ! (i + 2) ! (j + 1) - greyimg ! i ! (j + 1)))"
proof -
  note len = rect_row_length[OF assms]
  have a: "fx greyimg = butlast (tl (diff_axis1 greyimg))"
    by (simp add: fx_def slice_1_m1)
  have b: "fy greyimg = map (\<lambda>r. butlast (tl r)) (diff_axis0 greyimg)"
    by (simp add: fy_def slice_1_m1)
  have c: "length (fx greyimg ! i) = width greyimg - 2
         \<and> length (fy greyimg ! i) = width greyimg - 2
         \<and> (\<forall>j < width greyimg - 2.
               fx greyimg ! i ! j = greyimg ! (i + 1) ! (j + 2) - greyimg ! (i + 1) ! j
             \<and> fy greyimg ! i ! j = greyimg ! (i + 2) ! (j + 1) - greyimg ! i ! (j + 1))"
    if i: "i < height greyimg - 2" for i
  proof -
    from i have i': "i < length greyimg - 2" "i + 1 < length greyimg" "i + 2 < length greyimg" "i < length greyimg"
      by (simp_all add: height_def)
    have l1: "length (greyimg ! (i + 1)) = width greyimg" "length (greyimg ! (i + 2)) = width greyimg"
      "length (greyimg ! i) = width greyimg"
      using len i' by simp_all
    have fxr: "fx greyimg ! i = map2 (\<lambda>x y. x - y) (drop 2 (greyimg ! (i + 1))) (take (width greyimg - 2) (greyimg ! (i + 1)))"
      using fx_row[OF i'(1)] diff_axis1_row[OF i'(2)] l1 by simp
    have fyr: "fy greyimg ! i = butlast (tl (map2 (\<lambda>x y. x - y) (greyimg ! (i + 2)) (greyimg ! i)))"
      using fy_row[OF i'(1)] diff_axis0_row[OF i'(1)] by simp
    have "length (fx greyimg ! i) = width greyimg - 2" unfolding fxr using l1 by simp
    moreover have "length (fy greyimg ! i) = width greyimg - 2" unfolding fyr using l1 by simp
    moreover have "fx greyimg ! i ! j = greyimg ! (i + 1) ! (j + 2) - greyimg ! (i + 1) ! j
             \<and> fy greyimg ! i ! j = greyimg ! (i + 2) ! (j + 1) - greyimg ! i ! (j + 1)"
      if j: "j < width greyimg - 2" for j
    proof -
      have "fx greyimg ! i ! j = greyimg ! (i + 1) ! (j + 2) - greyimg ! (i + 1) ! j"
        unfolding fxr using l1 j by (simp add: add.commute)
      moreover have "fy greyimg ! i ! j = greyimg ! (i + 2) ! (j + 1) - greyimg ! i ! (j + 1)"
        unfolding fyr using l1 j by (simp add: nth_butlast nth_tl)
      ultimately show ?thesis by simp
    qed
    ultimately show ?thesis by blast
  qed
  have d: "length (fx greyimg) = height greyimg - 2" "length (fy greyimg) = height greyimg - 2"
    by (simp_all add: fx_length fy_length height_def)
  show ?thesis
    using a b c d by blast
qed

theorem gradient_crop_shapes_witness:
  "rect [[1,2,4,7,11],[1,3,6,10,15],[2,3,5,8,12],[1,1,2,3,5],[0,1,0,1,0::int]]
   \<and> length (fx [[1,2,4,7,11],[1,3,6,10,15],[2,3,5,8,12],[1,1,2,3,5],[0,1,0,1,0]]) = 3
   \<and> length (fy [[1,2,4,7,11],[1,3,6,10,15],[2,3,5,8,12],[1,1,2,3,5],[0,1,0,1,0]]) = 3
   \<and> length (fx [[1,2,4,7,11],[1,3,6,10,15],[2,3,5,8,12],[1,1,2,3,5],[0,1,0,1,0]] ! 0) = 3
   \<and> length (fy [[1,2,4,7,11],[1,3,6,10,15],[2,3,5,8,12],[1,1,2,3,5],[0,1,0,1,0]] ! 0) = 3
   \<and> fx [[1,2,4,7,11],[1,3,6,10,15],[2,3,5,8,12],[1,1,2,3,5],[0,1,0,1,0]] ! 0 ! 0 = 6 - 1
   \<and> fy [[1,2,4,7,11],[1,3,6,10,15],[2,3,5,8,12],[1,1,2,3,5],[0,1,0,1,0]] ! 0 ! 0 = 3 - 2"
proof -
  let ?g = "[[1,2,4,7,11],[1,3,6,10,15],[2,3,5,8,12],[1,1,2,3,5],[0,1,0,1,0::int]]"
  have r: "rect ?g" by (simp add: rect_def width_def)
  have hw: "height ?g = 5" "width ?g = 5" by (simp_all add: height_def width_def)
  from gradient_crop_shapes[OF r]
  have l: "length (fx ?g) = height ?g - 2" "length (fy ?g) = height ?g - 2"
    and c: "\<forall>i < height ?g - 2.
           length (fx ?g ! i) = width ?g - 2
         \<and> length (fy ?g ! i) = width ?g - 2
         \<and> (\<forall>j < width ?g - 2.
               fx ?g ! i ! j = ?g ! (i + 1) ! (j + 2) - ?g ! (i + 1) ! j
             \<and> fy ?g ! i ! j = ?g ! (i + 2) ! (j + 1) - ?g ! i ! (j + 1))"
    by blast+
  from c have c0: "length (fx ?g ! 0) = width ?g - 2
         \<and> length (fy ?g ! 0) = width ?g - 2
         \<and> (\<forall>j < width ?g - 2.
               fx ?g ! 0 ! j = ?g ! (0 + 1) ! (j + 2) - ?g ! (0 + 1) ! j
             \<and> fy ?g ! 0 ! j = ?g ! (0 + 2) ! (j + 1) - ?g ! 0 ! (j + 1))"
    unfolding hw by (rule allE[of _ 0]) simp
  then have c00: "fx ?g ! 0 ! 0 = ?g ! (0 + 1) ! (0 + 2) - ?g ! (0 + 1) ! 0
             \<and> fy ?g ! 0 ! 0 = ?g ! (0 + 2) ! (0 + 1) - ?g ! 0 ! (0 + 1)"
    unfolding hw by simp
  show ?thesis using r l c0 c00 unfolding hw by simp
qed

text \<open>
  Claim C4 as the specification words it drops the first and last row of \<open>fy\<close> and the
  first and last column of \<open>fx\<close>. On a 5x5 image that crop is not the code's, and it
  leaves arrays of different shapes (5 rows of 1 cell against 1 row of 5 cells).
\<close>

theorem spec_crop_counterexample:
  "fx [[1,2,4,7,11],[1,3,6,10,15],[2,3,5,8,12],[1,1,2,3,5],[0,1,0,1,0]]
     \<noteq> spec_fx [[1,2,4,7,11],[1,3,6,10,15],[2,3,5,8,12],[1,1,2,3,5],[0,1,0,1,0]]
   \<and> fy [[1,2,4,7,11],[1,3,6,10,15],[2,3,5,8,12],[1,1,2,3,5],[0,1,0,1,0]]
     \<noteq> spec_fy [[1,2,4,7,11],[1,3,6,10,15],[2,3,5,8,12],[1,1,2,3,5],[0,1,0,1,0]]
   \<and> length (spec_fx [[1,2,4,7,11],[1,3,6,10,15],[2,3,5,8,12],[1,1,2,3,5],[0,1,0,1,0]])
     \<noteq> length (spec_fy [[1,2,4,7,11],[1,3,6,10,15],[2,3,5,8,12],[1,1,2,3,5],[0,1,0,1,0]])"
  by (simp add: fx_def fy_def spec_fx_def spec_fy_def diff_axis1_def diff_axis0_def
        arr_sub_def slice_def slice_from_def slice_to_def clip_def)

subsection \<open>delentropy2d: the histogram in closed form\<close>

lemma np_max_eq: "np_max xs = (if xs = [] then Inl ValueError else Inr (Max (set xs)))"
proof (cases xs)
  case Nil
  then show ?thesis by (simp add: np_max_def)
next
  case (Cons a list)
  have "fold max list a = Max (set (a # list))" by (simp only: Max.set_eq_fold)
  with Cons show ?thesis by (simp add: np_max_def)
qed

lemma jrng_of_Inr:
  assumes "jrng_of gx gy = Inr J"
  shows "concat gx \<noteq> []" "concat gy \<noteq> []"
    "J = Max (abs ` (set (concat gx) \<union> set (concat gy)))"
proof -
  show a: "concat gx \<noteq> []" using assms
    by (auto simp: jrng_of_def np_max_eq split: if_splits)
  show b: "concat gy \<noteq> []" using assms
    by (auto simp: jrng_of_def np_max_eq split: if_splits)
  have fin: "finite (abs ` set (concat gx))" "finite (abs ` set (concat gy))" by simp_all
  have ne: "abs ` set (concat gx) \<noteq> {}" "abs ` set (concat gy) \<noteq> {}" using a b by simp_all
  have mx: "np_max (map abs (concat gx)) = Inr (Max (abs ` set (concat gx)))"
    using a by (simp add: np_max_eq del: set_concat)
  have my: "np_max (map abs (concat gy)) = Inr (Max (abs ` set (concat gy)))"
    using b by (simp add: np_max_eq del: set_concat)
  have "jrng_of gx gy = Inr (max (Max (abs ` set (concat gx))) (Max (abs ` set (concat gy))))"
    unfolding jrng_of_def mx my by (simp add: np_max_def max.commute)
  with assms have "J = max (Max (abs ` set (concat gx))) (Max (abs ` set (concat gy)))"
    by simp
  also have "\<dots> = Max (abs ` set (concat gx) \<union> abs ` set (concat gy))"
    using Max_Un[OF fin(1) ne(1) fin(2) ne(2)] by simp
  finally show "J = Max (abs ` (set (concat gx) \<union> set (concat gy)))"
    by (simp add: image_Un)
qed

lemma jrng_of_bounds:
  assumes "jrng_of gx gy = Inr J"
  shows "x \<in> set (concat gx) \<Longrightarrow> \<bar>x\<bar> \<le> J" "y \<in> set (concat gy) \<Longrightarrow> \<bar>y\<bar> \<le> J" "0 \<le> J"
proof -
  have J: "J = Max (abs ` (set (concat gx) \<union> set (concat gy)))"
    by (rule jrng_of_Inr(3)[OF assms])
  have fin: "finite (abs ` (set (concat gx) \<union> set (concat gy)))" by simp
  show x: "x \<in> set (concat gx) \<Longrightarrow> \<bar>x\<bar> \<le> J" for x
    unfolding J by (rule Max_ge[OF fin]) blast
  show "y \<in> set (concat gy) \<Longrightarrow> \<bar>y\<bar> \<le> J"
    unfolding J by (rule Max_ge[OF fin]) blast
  from jrng_of_Inr(1)[OF assms] obtain x0 where "x0 \<in> set (concat gx)"
    by (cases "concat gx") auto
  from x[OF this] show "0 \<le> J" by simp
qed

lemma jrng_of_Inl:
  "jrng_of gx gy = Inl e \<Longrightarrow> e = ValueError"
  by (auto simp: jrng_of_def np_max_eq split: if_splits)

lemma count_le_upt: "length (filter (\<lambda>k. k \<le> m) [0..<n]) = min n (Suc m)"
  by (induction n) auto

lemma edge_le_iff:
  fixes k m j :: nat
  assumes "m < 2 * j"
  shows "(k * (2 * j) \<le> m * (2 * j + 1)) = (k \<le> m)"
proof
  assume le: "k * (2 * j) \<le> m * (2 * j + 1)"
  show "k \<le> m"
  proof (rule ccontr)
    assume "\<not> k \<le> m"
    then have "Suc m \<le> k" by simp
    then have "Suc m * (2 * j) \<le> k * (2 * j)" by (rule mult_le_mono1)
    with le have "Suc m * (2 * j) \<le> m * (2 * j + 1)" by simp
    then show False using assms by (simp add: algebra_simps)
  qed
next
  assume "k \<le> m"
  then have "k * (2 * j) \<le> m * (2 * j)" by (rule mult_le_mono1)
  also have "\<dots> \<le> m * (2 * j + 1)" by simp
  finally show "k * (2 * j) \<le> m * (2 * j + 1)" .
qed

lemma bin_index_int:
  assumes J: "0 \<le> J" and lo: "- J \<le> v" and hi: "v \<le> J"
  shows "bin_index (hist_edges (nat (2 * J + 1)) (real_of_int (- J)) (real_of_int J))
           (real_of_int v) = Suc (nat (v + J))"
proof (cases "J = 0")
  case True
  with lo hi have "v = 0" by simp
  with True show ?thesis
    by (simp add: hist_edges_def linspace_def bin_index_def)
next
  case False
  with J have Jpos: "0 < J" by simp
  define j where "j = nat J"
  define m where "m = nat (v + J)"
  define n where "n = 2 * j + 1"
  have Jj: "J = int j" and jpos: "0 < j" using Jpos by (simp_all add: j_def)
  have vm: "v = int m - int j" using lo by (simp add: m_def Jj)
  have mle: "m \<le> 2 * j" using hi lo by (simp add: m_def Jj)
  have n: "nat (2 * J + 1) = n" by (simp add: n_def Jj nat_add_distrib nat_mult_distrib)
  let ?f = "\<lambda>k. - real j + real k * ((real j - (- real j)) / real n)"
  have "hist_edges (nat (2 * J + 1)) (real_of_int (- J)) (real_of_int J)
         = hist_edges n (- real j) (real j)"
    unfolding n by (simp add: Jj)
  also have "\<dots> = map ?f [0..<n] @ [real j]"
    using jpos by (simp add: hist_edges_def linspace_def)
  finally have edges: "hist_edges (nat (2 * J + 1)) (real_of_int (- J)) (real_of_int J)
         = map ?f [0..<n] @ [real j]" .
  have fk: "(?f k \<le> real_of_int v) = (k * (2 * j) \<le> m * (2 * j + 1))" for k
  proof -
    have npos: "0 < real n" by (simp add: n_def)
    have "(?f k \<le> real_of_int v) = (real k * (2 * real j / real n) \<le> real m)"
      by (simp add: vm)
    also have "\<dots> = (real k * (2 * real j) \<le> real m * real n)"
      using npos by (simp add: pos_divide_le_eq)
    also have "\<dots> = (real (k * (2 * j)) \<le> real (m * (2 * j + 1)))"
      by (simp add: n_def algebra_simps)
    also have "\<dots> = (k * (2 * j) \<le> m * (2 * j + 1))"
      by (rule of_nat_le_iff)
    finally show ?thesis .
  qed
  have cnt: "length (filter (\<lambda>e. e \<le> real_of_int v) (map ?f [0..<n]))
        = length (filter (\<lambda>k. k * (2 * j) \<le> m * (2 * j + 1)) [0..<n])"
    by (simp only: filter_map comp_def length_map fk)
  show ?thesis
  proof (cases "m = 2 * j")
    case True
    then have vJ: "real_of_int v = real j" by (simp add: vm)
    have "k * (2 * j) \<le> m * (2 * j + 1)" if "k < n" for k
    proof -
      from that have "k \<le> 2 * j + 1" by (simp add: n_def)
      then have "k * (2 * j) \<le> (2 * j + 1) * (2 * j)" by (rule mult_le_mono1)
      then show ?thesis by (simp add: True mult.commute)
    qed
    then have "filter (\<lambda>k. k * (2 * j) \<le> m * (2 * j + 1)) [0..<n] = [0..<n]"
      by (simp add: filter_id_conv)
    then have "length (filter (\<lambda>e. e \<le> real_of_int v) (map ?f [0..<n])) = n"
      using cnt by simp
    then have "bin_index (map ?f [0..<n] @ [real j]) (real_of_int v) = n"
      by (simp add: bin_index_def vJ)
    then show ?thesis unfolding edges by (simp add: n_def m_def[symmetric] True)
  next
    case False
    with mle have mlt: "m < 2 * j" by simp
    then have vJ: "real_of_int v \<noteq> real j" "\<not> real j \<le> real_of_int v" by (simp_all add: vm)
    have "filter (\<lambda>k. k * (2 * j) \<le> m * (2 * j + 1)) [0..<n] = filter (\<lambda>k. k \<le> m) [0..<n]"
      by (simp only: edge_le_iff[OF mlt])
    then have "length (filter (\<lambda>e. e \<le> real_of_int v) (map ?f [0..<n])) = min n (Suc m)"
      using cnt by (simp add: count_le_upt)
    also have "\<dots> = Suc m" using mlt by (simp add: n_def)
    finally have "bin_index (map ?f [0..<n] @ [real j]) (real_of_int v) = Suc m"
      using vJ by (simp add: bin_index_def)
    then show ?thesis unfolding edges by (simp add: m_def)
  qed
qed

lemma histogram2d_int:
  assumes J: "0 \<le> J"
    and xs: "\<And>x. x \<in> set xs \<Longrightarrow> \<bar>x\<bar> \<le> J"
    and ys: "\<And>y. y \<in> set ys \<Longrightarrow> \<bar>y\<bar> \<le> J"
  shows "histogram2d xs ys (nat (2 * J + 1)) (real_of_int (- J)) (real_of_int J)
         = map (\<lambda>a. map (\<lambda>b. pair_count J (zip xs ys) a b) [0..<nat (2 * J + 1)])
               [0..<nat (2 * J + 1)]"
proof -
  let ?edges = "hist_edges (nat (2 * J + 1)) (real_of_int (- J)) (real_of_int J)"
  let ?g = "\<lambda>(x, y). (bin_index ?edges (real_of_int x), bin_index ?edges (real_of_int y))"
  have cell: "length (filter (\<lambda>p. p = (Suc a, Suc b)) (map ?g (zip xs ys)))
              = pair_count J (zip xs ys) a b" for a b
  proof -
    have "filter (\<lambda>z. ?g z = (Suc a, Suc b)) (zip xs ys)
          = filter (\<lambda>p. p = (int a - J, int b - J)) (zip xs ys)"
    proof (rule filter_cong[OF refl])
      fix z assume z: "z \<in> set (zip xs ys)"
      obtain x y where zxy: "z = (x, y)" by (cases z)
      from z zxy have "x \<in> set xs" "y \<in> set ys"
        by (auto dest: set_zip_leftD set_zip_rightD)
      then have bx: "- J \<le> x" "x \<le> J" and yb: "- J \<le> y" "y \<le> J"
        using xs[of x] ys[of y] by simp_all
      have "?g z = (Suc (nat (x + J)), Suc (nat (y + J)))"
        unfolding zxy using bin_index_int[OF J bx] bin_index_int[OF J yb] by simp
      moreover have "(nat (x + J) = a) = (x = int a - J)" using bx by auto
      moreover have "(nat (y + J) = b) = (y = int b - J)" using yb by auto
      ultimately show "(?g z = (Suc a, Suc b)) = (z = (int a - J, int b - J))"
        by (simp add: zxy)
    qed
    then show ?thesis
      by (simp only: pair_count_def filter_map comp_def length_map)
  qed
  show ?thesis
    unfolding histogram2d_def Let_def by (simp only: cell)
qed

lemma delentropy_of_Inr:
  assumes j: "jrng_of gx gy = Inr J" and le: "J \<le> 255"
  shows "delentropy_of gx gy =
    Inr \<lparr>del_jrng = J,
         del_hist = hist_grid J (zip (concat gx) (concat gy)),
         del_deldensity = density_of_hist (hist_grid J (zip (concat gx) (concat gy))),
         del_entropy = entropy_of_hist (hist_grid J (zip (concat gx) (concat gy))),
         del_gradimg = map (map (\<lambda>v. - v - 1)) (arr_add gx gy)\<rparr>"
proof -
  have h: "histogram2d (concat gx) (concat gy) (nat (2 * J + 1)) (real_of_int (- J)) (real_of_int J)
    = hist_grid J (zip (concat gx) (concat gy))"
    unfolding hist_grid_def
    by (rule histogram2d_int) (use jrng_of_bounds[OF j] in blast)+
  show ?thesis
    unfolding delentropy_of_def Let_def j sum.case h
    using le by (simp add: entropy_of_hist_def density_of_hist_def)
qed

lemma delentropy_of_assert:
  "(delentropy_of gx gy = Inl AssertionError) = (\<exists>J. jrng_of gx gy = Inr J \<and> 255 < J)"
proof (cases "jrng_of gx gy")
  case (Inl e)
  then have "e = ValueError" by (rule jrng_of_Inl)
  with Inl show ?thesis by (simp add: delentropy_of_def)
next
  case (Inr J)
  then show ?thesis by (simp add: delentropy_of_def Let_def)
qed

lemma concat_map_map: "concat (map (map f) xss) = map f (concat xss)"
  by (induction xss) simp_all

lemma abs_concat_neg:
  "map abs (concat (map (map uminus) g)) = map abs (concat (g :: int list list))"
  by (simp add: concat_map_map comp_def)

lemma jrng_of_neg:
  "jrng_of (map (map uminus) gx) (map (map uminus) gy) = jrng_of gx gy"
  unfolding jrng_of_def abs_concat_neg ..

lemma zip_neg:
  "zip (concat (map (map uminus) gx)) (concat (map (map uminus) gy))
   = map (\<lambda>(x, y). (- x, - y)) (zip (concat gx) (concat gy))"
  by (simp add: concat_map_map zip_map_map)

lemma pair_count_neg:
  assumes "0 \<le> J" "a < nat (2 * J + 1)" "b < nat (2 * J + 1)"
  shows "pair_count J (map (\<lambda>(x, y). (- x, - y)) zs) a b
         = pair_count J zs (nat (2 * J + 1) - 1 - a) (nat (2 * J + 1) - 1 - b)"
proof -
  have a: "int (nat (2 * J + 1) - 1 - a) = 2 * J - int a"
    and b: "int (nat (2 * J + 1) - 1 - b) = 2 * J - int b"
    using assms by auto
  have "filter (\<lambda>z. (case z of (x, y) \<Rightarrow> (- x, - y)) = (int a - J, int b - J)) zs
      = filter (\<lambda>p. p = (int (nat (2 * J + 1) - 1 - a) - J, int (nat (2 * J + 1) - 1 - b) - J)) zs"
    unfolding a b by (rule filter_cong[OF refl]) auto
  then show ?thesis
    by (simp only: pair_count_def filter_map comp_def length_map)
qed

lemma rev_map_upt: "rev (map f [0..<n]) = map (\<lambda>i. f (n - 1 - i)) [0..<n]"
  by (rule nth_equalityI) (simp_all add: rev_nth)

lemma hist_grid_neg:
  assumes "0 \<le> J"
  shows "hist_grid J (map (\<lambda>(x, y). (- x, - y)) zs) = rev (map rev (hist_grid J zs))"
proof -
  let ?n = "nat (2 * J + 1)"
  have "rev (map rev (hist_grid J zs))
        = map (\<lambda>a. map (\<lambda>b. pair_count J zs (?n - 1 - a) (?n - 1 - b)) [0..<?n]) [0..<?n]"
    unfolding hist_grid_def by (simp add: rev_map[symmetric] rev_map_upt comp_def)
  also have "\<dots> = hist_grid J (map (\<lambda>(x, y). (- x, - y)) zs)"
    unfolding hist_grid_def using assms by (simp add: pair_count_neg)
  finally show ?thesis by simp
qed

text \<open>
  Claim C5. delentropy2d fails with the assertion error exactly when \<open>J\<close>, the largest
  absolute value among the cells of \<open>fx\<close> and \<open>fy\<close>, exists and exceeds 255. When
  \<open>J \<le> 255\<close> the method returns, and its histogram has \<open>2J + 1\<close> rows of \<open>2J + 1\<close>
  bins, bin \<open>(a, b)\<close> counting the gradient pairs equal to \<open>(a - J, b - J)\<close>: one bin
  for each integer of \<open>[-J, J]\<close> on each axis. (Where the cropped gradient has no cell,
  \<open>np.max\<close> raises before the assertion is reached and there is no \<open>J\<close>.)
\<close>

theorem delentropy2d_assertion:
  "((delentropy2d greyimg = Inl AssertionError)
      = (\<exists>J. jrng_of (fx greyimg) (fy greyimg) = Inr J \<and> 255 < J))
   \<and> (\<forall>J. jrng_of (fx greyimg) (fy greyimg) = Inr J \<longrightarrow>
         J = Max (abs ` (set (concat (fx greyimg)) \<union> set (concat (fy greyimg))))
       \<and> (J \<le> 255 \<longrightarrow>
            (\<exists>res. delentropy2d greyimg = Inr res \<and> del_jrng res = J
               \<and> length (del_hist res) = nat (2 * J + 1)
               \<and> (\<forall>a < nat (2 * J + 1).
                     length (del_hist res ! a) = nat (2 * J + 1)
                   \<and> (\<forall>b < nat (2 * J + 1).
                        del_hist res ! a ! b =
                          length (filter (\<lambda>p. p = (int a - J, int b - J))
                                    (zip (concat (fx greyimg)) (concat (fy greyimg)))))))))"
proof (intro conjI allI impI)
  show "(delentropy2d greyimg = Inl AssertionError)
      = (\<exists>J. jrng_of (fx greyimg) (fy greyimg) = Inr J \<and> 255 < J)"
    unfolding delentropy2d_def by (rule delentropy_of_assert)
next
  fix J assume j: "jrng_of (fx greyimg) (fy greyimg) = Inr J"
  show "J = Max (abs ` (set (concat (fx greyimg)) \<union> set (concat (fy greyimg))))"
    by (rule jrng_of_Inr(3)[OF j])
next
  fix J assume j: "jrng_of (fx greyimg) (fy greyimg) = Inr J" and le: "J \<le> 255"
  show "\<exists>res. delentropy2d greyimg = Inr res \<and> del_jrng res = J
               \<and> length (del_hist res) = nat (2 * J + 1)
               \<and> (\<forall>a < nat (2 * J + 1).
                     length (del_hist res ! a) = nat (2 * J + 1)
                   \<and> (\<forall>b < nat (2 * J + 1).
                        del_hist res ! a ! b =
                          length (filter (\<lambda>p. p = (int a - J, int b - J))
                                    (zip (concat (fx greyimg)) (concat (fy greyimg))))))"
    unfolding delentropy2d_def delentropy_of_Inr[OF j le]
    by (simp add: pair_count_def hist_grid_def)
qed

theorem delentropy2d_assertion_witness:
  "jrng_of (fx [[1,2,3],[4,5,6],[7,8,10]]) (fy [[1,2,3],[4,5,6],[7,8,10]]) = Inr 6
   \<and> (\<exists>res. delentropy2d [[1,2,3],[4,5,6],[7,8,10]] = Inr res
         \<and> length (del_hist res) = 13 \<and> length (del_hist res ! 8) = 13
         \<and> del_hist res ! 8 ! 12 = 1 \<and> del_hist res ! 8 ! 11 = 0)
   \<and> jrng_of (fx [[0,0,0],[0,0,300],[0,0,0]]) (fy [[0,0,0],[0,0,300],[0,0,0]]) = Inr 300
   \<and> delentropy2d [[0,0,0],[0,0,300],[0,0,0]] = Inl AssertionError"
proof -
  let ?g = "[[1,2,3],[4,5,6],[7,8,10::int]]"
  let ?h = "[[0,0,0],[0,0,300],[0,0,0::int]]"
  have fg: "fx ?g = [[2]]" "fy ?g = [[6]]"
    by (simp_all add: fx_def fy_def diff_axis1_def diff_axis0_def
        arr_sub_def slice_def slice_from_def slice_to_def clip_def)
  have fh: "fx ?h = [[300]]" "fy ?h = [[0]]"
    by (simp_all add: fx_def fy_def diff_axis1_def diff_axis0_def
        arr_sub_def slice_def slice_from_def slice_to_def clip_def)
  have jg: "jrng_of (fx ?g) (fy ?g) = Inr 6"
    unfolding fg by (simp add: jrng_of_def np_max_def)
  have jh: "jrng_of (fx ?h) (fy ?h) = Inr 300"
    unfolding fh by (simp add: jrng_of_def np_max_def)
  from delentropy2d_assertion[of ?g] jg
  have "\<exists>res. delentropy2d ?g = Inr res \<and> del_jrng res = 6
               \<and> length (del_hist res) = nat (2 * 6 + 1)
               \<and> (\<forall>a < nat (2 * 6 + 1).
                     length (del_hist res ! a) = nat (2 * 6 + 1)
                   \<and> (\<forall>b < nat (2 * 6 + 1).
                        del_hist res ! a ! b =
                          length (filter (\<lambda>p. p = (int a - 6, int b - 6))
                                    (zip (concat (fx ?g)) (concat (fy ?g))))))"
    by simp
  then obtain res where res: "delentropy2d ?g = Inr res" "length (del_hist res) = 13"
    and cells: "\<And>a b. a < 13 \<Longrightarrow> b < 13 \<Longrightarrow> length (del_hist res ! a) = 13 \<and>
        del_hist res ! a ! b = length (filter (\<lambda>p. p = (int a - 6, int b - 6)) [(2, 6)])"
    unfolding fg by auto
  have "length (del_hist res ! 8) = 13" "del_hist res ! 8 ! 12 = 1" "del_hist res ! 8 ! 11 = 0"
    using cells[of 8 12] cells[of 8 11] by simp_all
  with res have g: "\<exists>res. delentropy2d ?g = Inr res
         \<and> length (del_hist res) = 13 \<and> length (del_hist res ! 8) = 13
         \<and> del_hist res ! 8 ! 12 = 1 \<and> del_hist res ! 8 ! 11 = 0"
    by blast
  from delentropy2d_assertion[of ?h] jh
  have h: "delentropy2d ?h = Inl AssertionError" by simp
  show ?thesis using jg g jh h by blast
qed

text \<open>
  The negated gradient pair. For every gradient pair with \<open>J \<le> 255\<close> the pipeline
  returns on the pair and on its negation with the same \<open>J\<close>, and the histogram of the
  negated pair is the histogram of the pair read backwards along both axes. The entropy
  of the negated pair is therefore the sum of the same per-bin contributions taken in
  the reverse order. Whether the two floating-point sums are the same double (the
  invariance of claim C6) depends on the rounding of additions made in a different order
  and is not a statement of this development, which adds reals.
\<close>

lemma negated_gradient_histogram:
  assumes "jrng_of gx gy = Inr J" and "J \<le> 255"
  shows "\<exists>r r'. delentropy_of gx gy = Inr r
     \<and> delentropy_of (map (map uminus) gx) (map (map uminus) gy) = Inr r'
     \<and> del_jrng r' = del_jrng r
     \<and> del_hist r' = rev (map rev (del_hist r))"
proof -
  have J: "0 \<le> J" by (rule jrng_of_bounds(3)[OF assms(1)])
  have j': "jrng_of (map (map uminus) gx) (map (map uminus) gy) = Inr J"
    using assms(1) by (simp only: jrng_of_neg)
  show ?thesis
    unfolding delentropy_of_Inr[OF assms] delentropy_of_Inr[OF j' assms(2)]
    by (simp add: zip_neg hist_grid_neg[OF J])
qed

subsection \<open>The method names\<close>

text \<open>
  Claim C8, as the code has it. The registry \<open>strtofunc\<close> of methods.py holds exactly the
  seven names, each once, and its default is \<open>2d-delentropy\<close>. The validator of the
  \<open>--method\<close> argument in main.py, \<open>argtypemethod\<close>, accepts exactly
  \<open>pseudo-spatial\<close>, \<open>2d-delentropy\<close> and \<open>2d-gradient\<close>, returns an accepted value
  unchanged, and rejects every other value with \<open>ArgumentTypeError\<close>; the argument's
  default there is \<open>2d-delentropy\<close>, which it accepts.
\<close>

theorem method_names:
  "set (map fst strtofunc) =
      {''1d-kapur'', ''1d-scipy'', ''1d-shannon'', ''2d-delentropy'', ''2d-gradient'',
       ''2d-regional-scikit'', ''2d-regional-shannon''}
   \<and> distinct (map fst strtofunc)
   \<and> map_of strtofunc default_method = Some Delentropy2d
   \<and> main_default_method = ''2d-delentropy''
   \<and> argtypemethod main_default_method = Inr main_default_method
   \<and> (\<forall>val. (argtypemethod val = Inr val)
               = (val \<in> {''pseudo-spatial'', ''2d-delentropy'', ''2d-gradient''})
            \<and> (argtypemethod val = Inl ArgumentTypeError)
               = (val \<notin> {''pseudo-spatial'', ''2d-delentropy'', ''2d-gradient''}))"
  by (simp add: strtofunc_def default_method_def main_default_method_def argtypemethod_def)

text \<open>
  Claim C8 as stated fails on the validator: it rejects \<open>1d-kapur\<close>, one of the seven
  names of the registry, and accepts \<open>pseudo-spatial\<close>, which is not one of them.
\<close>

theorem method_names_counterexample:
  "argtypemethod ''1d-kapur'' = Inl ArgumentTypeError
   \<and> map_of strtofunc ''1d-kapur'' = Some Kapur1d
   \<and> argtypemethod ''pseudo-spatial'' = Inr ''pseudo-spatial''
   \<and> map_of strtofunc ''pseudo-spatial'' = None"
  by (simp add: strtofunc_def argtypemethod_def)

subsection \<open>Constant images and degenerate distributions\<close>

lemma msum_replicate_Some: "0 < n \<Longrightarrow> msum (replicate n (Some t)) = Some (real n * t)"
  by (simp add: msum_def list_all_iff sum_list_replicate)

lemma msum_replicate_None: "msum (replicate n None) = None"
  by (simp add: msum_def list_all_iff)

lemma concat_replicate_replicate: "concat (replicate h (replicate w x)) = replicate (h * w) x"
  by (induction h) (simp_all add: replicate_add)

lemma shannon1d_const:
  assumes "0 < c" "0 < h" "0 < w"
  shows "s1_entropy (shannon1d (replicate h (replicate w c))) = Some (log 2 (real (h * w)))"
proof -
  let ?N = "h * w"
  have N: "0 < ?N" using assms by simp
  have s: "sum_list (concat (replicate h (replicate w c))) = int ?N * c"
    by (simp add: concat_replicate_replicate sum_list_replicate)
  have d: "fdiv (real_of_int c) (real ?N * real_of_int c) = Fin (1 / real ?N)"
    using assms by (simp add: fdiv_def del: of_nat_mult)
  have t: "mlog2_term (Fin (1 / real ?N)) = Some ((1 / real ?N) * log 2 (real ?N))"
    using N by (simp add: mlog2_term_def log_divide del: of_nat_mult)
  have dt: "mlog2_term (fdiv (real_of_int c) (real ?N * real_of_int c))
            = Some ((1 / real ?N) * log 2 (real ?N))"
    by (simp only: d t)
  have "s1_entropy (shannon1d (replicate h (replicate w c)))
        = msum (replicate ?N (Some ((1 / real ?N) * log 2 (real ?N))))"
    unfolding shannon1d_def Let_def s
    by (simp add: concat_replicate_replicate dt del: of_nat_mult)
  also have "\<dots> = Some (real ?N * ((1 / real ?N) * log 2 (real ?N)))"
    by (rule msum_replicate_Some[OF N])
  also have "\<dots> = Some (log 2 (real ?N))" using N by simp
  finally show ?thesis .
qed

lemma shannon1d_zero:
  "s1_signal (shannon1d (replicate h (replicate w 0))) = replicate h (replicate w NaN)"
  "s1_entropy (shannon1d (replicate h (replicate w 0))) = None"
  "scipy1d_signal (replicate h (replicate w 0)) = replicate (h * w) NaN"
proof -
  have s: "sum_list (concat (replicate h (replicate w (0::int)))) = 0"
    by (simp add: concat_replicate_replicate sum_list_replicate)
  show "s1_signal (shannon1d (replicate h (replicate w 0))) = replicate h (replicate w NaN)"
    unfolding shannon1d_def Let_def s by (simp add: fdiv_def)
  show "s1_entropy (shannon1d (replicate h (replicate w 0))) = None"
    unfolding shannon1d_def Let_def s
    by (simp add: fdiv_def mlog2_term_def concat_replicate_replicate msum_replicate_None)
  show "scipy1d_signal (replicate h (replicate w 0)) = replicate (h * w) NaN"
    unfolding scipy1d_signal_def s by (simp add: fdiv_def concat_replicate_replicate)
qed

lemma remdups_const: "set reg \<subseteq> {c} \<Longrightarrow> reg \<noteq> [] \<Longrightarrow> remdups reg = [c]"
proof (induction reg)
  case Nil then show ?case by simp
next
  case (Cons a reg)
  then have a: "a = c" by simp
  show ?case
  proof (cases "reg = []")
    case True with a show ?thesis by simp
  next
    case False
    with Cons have "remdups reg = [c]" by simp
    moreover from False Cons.prems have "c \<in> set reg" by (cases reg) auto
    ultimately show ?thesis using a by simp
  qed
qed

lemma count_list_const: "set reg \<subseteq> {c} \<Longrightarrow> count_list reg c = length reg"
  by (induction reg) auto

lemma went_const: "set reg \<subseteq> {c} \<Longrightarrow> went reg = 0"
proof (cases "reg = []")
  case True then show ?thesis by (simp add: went_def)
next
  case False
  assume s: "set reg \<subseteq> {c}"
  have "prob_of reg c = 1" using False by (simp add: prob_of_def count_list_const[OF s])
  then show ?thesis by (simp add: went_def remdups_const[OF s False])
qed

lemma set_slice: "set (slice lo hi xs) \<subseteq> set xs"
  unfolding slice_def using set_drop_subset set_take_subset by fast

lemma region_subset: "set (region g r i j) \<subseteq> \<Union> (set ` set g)"
proof
  fix x assume "x \<in> set (region g r i j)"
  then obtain row where row: "row \<in> set (slice (max 0 (int i - r)) (min (int (height g)) (int i + r)) g)"
    and x: "x \<in> set (slice (max 0 (int j - r)) (min (int (width g)) (int j + r)) row)"
    by (auto simp: region_def)
  from row have "row \<in> set g" using set_slice by fast
  moreover from x have "x \<in> set row" using set_slice by fast
  ultimately show "x \<in> \<Union> (set ` set g)" by blast
qed

lemma region_const: "set (region (replicate h (replicate w c)) r i j) \<subseteq> {c}"
  using region_subset[of "replicate h (replicate w c)" r i j] by (auto split: if_splits)

lemma rect_replicate: "rect (replicate h (replicate w c))"
  by (cases h) (simp_all add: rect_def width_def list_all_iff)

lemma shape_replicate:
  "0 < h \<Longrightarrow> width (replicate h (replicate w c)) = w"
  "height (replicate h (replicate w c)) = h"
  by (cases h; simp add: width_def height_def)+

lemma average_zeros: "0 < n \<Longrightarrow> average (replicate n 0) = Fin 0"
  by (simp add: average_def fdiv_def sum_list_replicate)

lemma std_zeros: "0 < n \<Longrightarrow> std (replicate n 0) = Fin 0"
  by (simp add: std_def average_zeros)

lemma shannon2dr_const:
  assumes "0 < h" "0 < w"
  shows "shannon2dr k (replicate h (replicate w c)) =
     Inr \<lparr>s2_entimg = replicate h (replicate w 0), s2_entropies = replicate (h * w) 0,
          s2_average = Fin 0, s2_std = Fin 0\<rparr>"
proof -
  have z: "went (region (replicate h (replicate w c)) r i j) = 0" for r i j
    by (rule went_const[OF region_const])
  have hw: "0 < h * w" using assms by simp
  show ?thesis
    unfolding shannon2dr_eq[OF rect_replicate] z shape_replicate(1)[OF assms(1)] shape_replicate(2)
    by (simp add: map_replicate_const concat_replicate_replicate trunc_int_def
        average_zeros[OF hw] std_zeros[OF hw] del: of_nat_mult)
qed

lemma grad_const:
  "fx (replicate h (replicate w c)) = replicate (h - 2) (replicate (w - 2) 0)"
  "fy (replicate h (replicate w c)) = replicate (h - 2) (replicate (w - 2) 0)"
proof -
  have a: "slice_from 2 (replicate n x) = replicate (n - 2) x" for n and x :: 'a
    by (simp add: slice_from_def clip_def min_def)
  have b: "slice_to (- 2) (replicate n x) = replicate (n - 2) x" for n and x :: 'a
    by (simp add: slice_to_def clip_def max_def nat_diff_distrib' min_def)
  have c: "slice 1 (- 1) (replicate n x) = replicate (n - 2) x" for n and x :: 'a
    by (simp add: slice_1_m1 butlast_conv_take min_def numeral_2_eq_2)
  have d: "arr_sub (replicate n (replicate m c)) (replicate n (replicate m c)) = replicate n (replicate m 0)" for n m
    by (simp add: arr_sub_def zip_replicate)
  show "fx (replicate h (replicate w c)) = replicate (h - 2) (replicate (w - 2) 0)"
    by (simp add: fx_def diff_axis1_def a b c d)
  show "fy (replicate h (replicate w c)) = replicate (h - 2) (replicate (w - 2) 0)"
    by (simp add: fy_def diff_axis0_def a b c d)
qed

lemma delentropy2d_const:
  assumes "3 \<le> h" "3 \<le> w"
  shows "\<exists>res. delentropy2d (replicate h (replicate w c)) = Inr res
     \<and> del_jrng res = 0 \<and> del_entropy res = Some 0"
proof -
  define N where "N = (h - 2) * (w - 2)"
  have N: "0 < N" using assms by (simp add: N_def)
  have cc: "concat (replicate (h - 2) (replicate (w - 2) (0::int))) = replicate N 0"
    by (simp add: concat_replicate_replicate N_def)
  have j: "jrng_of (replicate (h - 2) (replicate (w - 2) 0)) (replicate (h - 2) (replicate (w - 2) 0)) = Inr 0"
    unfolding jrng_of_def cc using N by (simp add: np_max_eq)
  have g: "hist_grid 0 (zip (replicate N 0) (replicate N 0)) = [[N]]"
    by (simp add: hist_grid_def pair_count_def zip_replicate)
  have e: "entropy_of_hist [[N]] = Some 0"
    using N by (simp add: entropy_of_hist_def density_of_hist_def fdiv_def mlog2_term_def msum_def)
  show ?thesis
    unfolding delentropy2d_def grad_const delentropy_of_Inr[OF j, simplified] cc g e
    by simp
qed

lemma log2_eq_0_iff: "0 < x \<Longrightarrow> (log 2 x = 0) = (x = (1::real))"
proof
  assume x: "0 < x" and l: "log 2 x = 0"
  have "x = 2 powr (log 2 x)" using x by simp
  then show "x = 1" using l by simp
qed simp

text \<open>
  Claim C3, as the code has it. On every constant image (of at least one pixel) the
  sliding-window method returns entropy 0 in every cell, with mean and standard
  deviation 0, and delentropy2d, on a constant image of at least 3x3 pixels, returns
  entropy 0. shannon1d normalises the intensities themselves into a probability vector:
  on a constant image of \<open>N = h * w\<close> pixels of a positive value it returns
  \<open>log 2 N\<close>, which is 0 only for a single pixel.
\<close>

theorem constant_image_entropy:
  assumes "0 < h" and "0 < w"
  shows "shannon2dr kernsize (replicate h (replicate w c)) =
           Inr \<lparr>s2_entimg = replicate h (replicate w 0), s2_entropies = replicate (h * w) 0,
                s2_average = Fin 0, s2_std = Fin 0\<rparr>
     \<and> (3 \<le> h \<and> 3 \<le> w \<longrightarrow>
          (\<exists>res. delentropy2d (replicate h (replicate w c)) = Inr res
                 \<and> del_entropy res = Some 0))
     \<and> (0 < c \<longrightarrow>
          s1_entropy (shannon1d (replicate h (replicate w c))) = Some (log 2 (real (h * w)))
        \<and> ((s1_entropy (shannon1d (replicate h (replicate w c))) = Some 0) = (h * w = 1)))"
proof (intro conjI impI)
  show "shannon2dr kernsize (replicate h (replicate w c)) =
           Inr \<lparr>s2_entimg = replicate h (replicate w 0), s2_entropies = replicate (h * w) 0,
                s2_average = Fin 0, s2_std = Fin 0\<rparr>"
    by (rule shannon2dr_const[OF assms])
next
  assume "3 \<le> h \<and> 3 \<le> w"
  then show "\<exists>res. delentropy2d (replicate h (replicate w c)) = Inr res \<and> del_entropy res = Some 0"
    using delentropy2d_const[of h w c] by blast
next
  assume c: "0 < c"
  show e: "s1_entropy (shannon1d (replicate h (replicate w c))) = Some (log 2 (real (h * w)))"
    by (rule shannon1d_const[OF c assms])
  have "0 < real (h * w)" using assms by simp
  from log2_eq_0_iff[OF this]
  show "(s1_entropy (shannon1d (replicate h (replicate w c))) = Some 0) = (h * w = 1)"
    unfolding e by (simp del: of_nat_mult)
qed

theorem constant_image_entropy_witness:
  "(0::nat) < 3
   \<and> shannon2dr 3 [[7,7,7],[7,7,7],[7,7,7]] =
        Inr \<lparr>s2_entimg = [[0,0,0],[0,0,0],[0,0,0]], s2_entropies = [0,0,0,0,0,0,0,0,0],
             s2_average = Fin 0, s2_std = Fin 0\<rparr>
   \<and> (\<exists>res. delentropy2d [[7,7,7],[7,7,7],[7,7,7]] = Inr res \<and> del_entropy res = Some 0)
   \<and> s1_entropy (shannon1d [[7,7,7],[7,7,7],[7,7,7]]) = Some (log 2 9)"
proof -
  have r: "replicate 3 (replicate 3 (7::int)) = [[7,7,7],[7,7,7],[7,7,7]]"
    by (simp add: numeral_3_eq_3)
  have z: "replicate 3 (replicate 3 (0::int)) = [[0,0,0],[0,0,0],[0,0,0]]"
    "replicate (3 * 3) (0::real) = [0,0,0,0,0,0,0,0,0]"
    by (simp_all add: eval_nat_numeral)
  have p: "(0::nat) < 3" by simp
  from constant_image_entropy[OF p p, of 3 7] show ?thesis
    unfolding r z by simp
qed

text \<open>
  Claim C3 as stated fails for shannon1d: on the constant image \<open>[[1, 1]]\<close> its
  entropy is 1.
\<close>

theorem constant_image_counterexample:
  "s1_entropy (shannon1d [[1, 1]]) = Some 1 \<and> s1_entropy (shannon1d [[1, 1]]) \<noteq> Some 0"
proof -
  have "s1_entropy (shannon1d (replicate 1 (replicate 2 1))) = Some (log 2 (real (1 * 2)))"
    by (rule shannon1d_const) simp_all
  moreover have "replicate 1 (replicate 2 (1::int)) = [[1, 1]]" by (simp add: numeral_2_eq_2)
  ultimately show ?thesis by simp
qed

text \<open>
  Claim C7, as the code has it. For an empty window and for a window whose elements
  are all identical, the probability estimation of the sliding-window method gives no
  outcome, respectively the single outcome with probability 1, and entropy 0; and on
  no window does it divide by zero. For an all-zero image, shannon1d and scipy1d
  divide every pixel by the pixel sum 0: every cell of the normalised signal is
  \<open>nan\<close>, and the entropy of shannon1d is the constant \<open>masked\<close>, not 0.
\<close>

theorem degenerate_distributions:
  "(set reg \<subseteq> {c} \<longrightarrow>
       window_entropy reg = Inr 0 \<and> probs reg = Inr (if reg = [] then [] else [1]))
   \<and> (\<exists>e. window_entropy reg' = Inr e)
   \<and> (0 < h \<and> 0 < w \<longrightarrow>
        s1_signal (shannon1d (replicate h (replicate w 0))) = replicate h (replicate w NaN)
      \<and> s1_entropy (shannon1d (replicate h (replicate w 0))) = None
      \<and> scipy1d_signal (replicate h (replicate w 0)) = replicate (h * w) NaN)"
proof (intro conjI impI)
  assume s: "set reg \<subseteq> {c}"
  show "window_entropy reg = Inr 0"
    unfolding window_entropy_eq went_const[OF s] ..
  show "probs reg = Inr (if reg = [] then [] else [1])"
  proof (cases "reg = []")
    case True then show ?thesis by (simp add: probs_eq)
  next
    case False
    then show ?thesis
      by (simp add: probs_eq remdups_const[OF s False] prob_of_def count_list_const[OF s])
  qed
next
  show "\<exists>e. window_entropy reg' = Inr e" by (simp add: window_entropy_eq)
qed (simp_all add: shannon1d_zero)

theorem degenerate_distributions_witness:
  "set [5, 5, 5, 5::int] \<subseteq> {5} \<and> window_entropy [5, 5, 5, 5] = Inr 0
   \<and> probs [5, 5, 5, 5] = Inr [1] \<and> window_entropy [] = Inr 0
   \<and> s1_signal (shannon1d [[0, 0], [0, 0]]) = [[NaN, NaN], [NaN, NaN]]
   \<and> s1_entropy (shannon1d [[0, 0], [0, 0]]) = None"
proof -
  have r: "replicate 2 (replicate 2 (0::int)) = [[0, 0], [0, 0]]"
    "replicate 2 (replicate 2 NaN) = [[NaN, NaN], [NaN, NaN]]"
    by (simp_all add: numeral_2_eq_2)
  from degenerate_distributions[of "[5,5,5,5]" 5 "[]" 2 2]
  have a: "window_entropy [5, 5, 5, 5] = Inr 0 \<and> probs [5, 5, 5, 5] = Inr [1]"
    and b: "s1_signal (shannon1d [[0, 0], [0, 0]]) = [[NaN, NaN], [NaN, NaN]]
            \<and> s1_entropy (shannon1d [[0, 0], [0, 0]]) = None"
    unfolding r by simp_all
  from degenerate_distributions[of "[]" 5 "[]" 2 2]
  have c: "window_entropy [] = Inr 0" by simp
  show ?thesis using a b c by simp
qed

text \<open>
  Claim C7 as stated fails on the all-zero image \<open>[[0]]\<close>: shannon1d and scipy1d
  divide 0 by 0, the signal is \<open>nan\<close>, and the entropy of shannon1d is not 0.
\<close>

theorem degenerate_distributions_counterexample:
  "s1_signal (shannon1d [[0]]) = [[NaN]] \<and> s1_entropy (shannon1d [[0]]) = None
   \<and> s1_entropy (shannon1d [[0]]) \<noteq> Some 0 \<and> scipy1d_signal [[0]] = [NaN]"
  by (simp add: shannon1d_def scipy1d_signal_def fdiv_def mlog2_term_def msum_def)

subsection \<open>kapur1d\<close>

lemma sorted_le_last: "sorted xs \<Longrightarrow> x \<in> set xs \<Longrightarrow> x \<le> last (xs :: nat list)"
  by (induction xs) auto

lemma real_sum_list: "real (sum_list xs) = sum_list (map real xs)"
  by (induction xs) simp_all

lemma binrng_Inr:
  assumes "binrng hist = Inr (lo, hi)"
  shows "hi < length hist" "hist ! hi \<noteq> 0" "lo \<le> hi" "lo < length hist" "hist ! lo \<noteq> 0"
    "\<And>b. hi < b \<Longrightarrow> b < length hist \<Longrightarrow> hist ! b = 0"
proof -
  let ?nz = "filter (\<lambda>b. hist ! b \<noteq> 0) [0..<length hist]"
  from assms obtain b bs where nz: "?nz = b # bs" and lo: "lo = b" and hi: "hi = last (b # bs)"
    by (auto simp: binrng_def split: list.splits)
  have srt: "sorted ?nz" using sorted_filter[of "\<lambda>x. x" "[0..<length hist]"] by simp
  have ne: "?nz \<noteq> []" using nz by simp
  have "last ?nz \<in> set ?nz" by (rule last_in_set[OF ne])
  then have "hi \<in> set ?nz" using hi nz by simp
  then show "hi < length hist" "hist ! hi \<noteq> 0" by simp_all
  have "hd ?nz \<in> set ?nz" by (rule hd_in_set[OF ne])
  then have lo_in: "lo \<in> set ?nz" using lo nz by simp
  then show "lo < length hist" "hist ! lo \<noteq> 0" by simp_all
  have le_last: "x \<le> hi" if "x \<in> set ?nz" for x
    using sorted_le_last[OF srt that] hi nz by simp
  show "lo \<le> hi" by (rule le_last[OF lo_in])
  show "hist ! b' = 0" if "hi < b'" "b' < length hist" for b'
  proof (rule ccontr)
    assume "hist ! b' \<noteq> 0"
    with that(2) have "b' \<in> set ?nz" by simp
    from le_last[OF this] that(1) show False by simp
  qed
qed

lemma high_part_last:
  assumes "binrng hist = Inr (lo, hi)"
  shows "filter (\<lambda>h. h \<noteq> 0) (drop (hi + 1) hist) = []"
proof -
  have "x = 0" if "x \<in> set (drop (hi + 1) hist)" for x
  proof -
    from that obtain k where k: "k < length (drop (hi + 1) hist)" "x = drop (hi + 1) hist ! k"
      by (auto simp: in_set_conv_nth)
    then have "x = hist ! (hi + 1 + k)" "hi < hi + 1 + k" "hi + 1 + k < length hist" by simp_all
    then show ?thesis using binrng_Inr(6)[OF assms] by simp
  qed
  then show ?thesis by (auto simp: filter_empty_conv)
qed

lemma cumsum_from_nth:
  "i < length xs \<Longrightarrow> cumsum_from acc xs ! i = acc + sum_list (take (Suc i) xs)"
proof (induction xs arbitrary: acc i)
  case Nil then show ?case by simp
next
  case (Cons x xs)
  then show ?case by (cases i) simp_all
qed

lemma length_cumsum_from: "length (cumsum_from acc xs) = length xs"
  by (induction xs arbitrary: acc) simp_all

lemma cumsum_nth: "i < length xs \<Longrightarrow> cumsum xs ! i = sum_list (take (Suc i) xs)"
  by (simp add: cumsum_def cumsum_from_nth)

lemma cdf_pos:
  assumes "i < length hist" "b \<le> i" "hist ! b \<noteq> 0"
  shows "0 < cumsum (map real hist) ! i"
proof -
  have b: "b < length (take (Suc i) hist)" using assms by simp
  have "hist ! b \<in> set (take (Suc i) hist)"
    using nth_mem[OF b] assms by simp
  then have "hist ! b \<le> sum_list (take (Suc i) hist)"
    by (rule member_le_sum_list) simp
  then have "0 < sum_list (take (Suc i) hist)" using assms(3) by simp
  then have "0 < real (sum_list (take (Suc i) hist))" by simp
  also have "real (sum_list (take (Suc i) hist)) = sum_list (take (Suc i) (map real hist))"
    by (simp add: take_map real_sum_list)
  finally show ?thesis using assms(1) by (simp add: cumsum_nth)
qed

lemma msum_Some:
  assumes "c \<in> set cs" "c \<noteq> None"
  shows "\<exists>e. msum cs = Some e"
proof -
  have "\<not> list_all (\<lambda>c. c = None) cs" using assms by (auto simp: list_all_iff)
  then show ?thesis by (simp add: msum_def)
qed

lemma low_entropy_Some:
  assumes i: "i < length hist" and b: "b \<le> i" and nz: "hist ! b \<noteq> 0"
  shows "\<exists>e. low_entropy hist (cumsum (map real hist)) i = Some e"
proof -
  let ?cdf = "cumsum (map real hist)"
  let ?cs = "map (\<lambda>h. mln_term (fdiv (real h) (?cdf ! i))) (take (i + 1) hist)"
  have pos: "0 < ?cdf ! i" by (rule cdf_pos[OF i b nz])
  have bl: "b < length (take (i + 1) hist)" using i b by simp
  have "hist ! b \<in> set (take (i + 1) hist)" using nth_mem[OF bl] b by simp
  then have "mln_term (fdiv (real (hist ! b)) (?cdf ! i)) \<in> set ?cs" by simp
  moreover have "mln_term (fdiv (real (hist ! b)) (?cdf ! i)) \<noteq> None"
    using pos nz by (simp add: mln_term_def fdiv_def)
  ultimately obtain e where "msum ?cs = Some e" using msum_Some by blast
  then show ?thesis by (simp add: low_entropy_def)
qed

lemma hist5: "histogram256 [0, 1, 2, 3, 4] = [1, 1, 1, 1, 1] @ replicate 251 0"
  by code_simp

lemma binrng5: "binrng ([1, 1, 1, 1, 1] @ replicate 251 0) = Inr (0, 4)"
  by code_simp

lemma cdf5:
  "cumsum (map real ([1, 1, 1, 1, 1] @ replicate 251 0)) ! 0 = 1"
  "cumsum (map real ([1, 1, 1, 1, 1] @ replicate 251 0)) ! Suc 0 = 2"
  "cumsum (map real ([1, 1, 1, 1, 1] @ replicate 251 0)) ! 2 = 3"
  "cumsum (map real ([1, 1, 1, 1, 1] @ replicate 251 0)) ! 3 = 4"
  "cumsum (map real ([1, 1, 1, 1, 1] @ replicate 251 0)) ! 4 = 5"
  by (simp_all add: cumsum_nth)

lemma cand5:
  assumes c: "cdf ! 0 = 1" "cdf ! Suc 0 = 2" "cdf ! 2 = 3" "cdf ! 3 = 4" "cdf ! 4 = 5"
  shows "cand_entropy ([1, 1, 1, 1, 1] @ replicate 251 0) cdf 4 0 = Some (Fin (ln 4))"
    and "cand_entropy ([1, 1, 1, 1, 1] @ replicate 251 0) cdf 4 1 = Some (Fin (ln 2 + ln 3))"
    and "cand_entropy ([1, 1, 1, 1, 1] @ replicate 251 0) cdf 4 2 = Some (Fin (ln 2 + ln 3))"
    and "cand_entropy ([1, 1, 1, 1, 1] @ replicate 251 0) cdf 4 3 = Some (Fin (ln 4))"
    and "cand_entropy ([1, 1, 1, 1, 1] @ replicate 251 0) cdf 4 4 = Some (Fin (ln 5))"
  by (simp_all add: cand_entropy_def low_entropy_def high_sum_def high_part_def c
      mln_term_def fdiv_def msum_def fsum_def ln_div)

lemma ln6: "ln 2 + ln 3 = ln (6::real)"
proof -
  show ?thesis using ln_mult[of "2::real" 3] by simp
qed

lemma ln_cmp:
  "ln 4 < ln 2 + ln (3::real)" "\<not> ln 2 + ln 3 < ln (4::real)"
  "ln 5 < ln 2 + ln (3::real)" "\<not> ln 2 + ln 3 < ln (5::real)"
  unfolding ln6 by simp_all

lemma upt5: "[0..<4 + 1] = [0, 1, 2, 3, 4]"
  by code_simp

lemma kapur_loop5:
  assumes c: "cdf ! 0 = 1" "cdf ! Suc 0 = 2" "cdf ! 2 = 3" "cdf ! 3 = 4" "cdf ! 4 = 5"
  shows "kapur_loop ([1, 1, 1, 1, 1] @ replicate 251 0) cdf 4 [0, 1, 2, 3, 4]
           \<lparr>k_entropy = None, k_entropymax = Fin 0, k_threshold = 0\<rparr>
         = \<lparr>k_entropy = Some (Some (Fin (ln 5))), k_entropymax = Fin (ln 2 + ln 3),
            k_threshold = 1\<rparr>"
  by (simp add: cand5[OF c] ln_cmp del: One_nat_def append.simps)

text \<open>
  Claim C10. Let \<open>hi\<close> be the last nonzero bin of the histogram. For the candidate
  threshold \<open>hi\<close> the denominator of the high partition, \<open>cdf[hi] - cdf[hi]\<close>, is 0;
  no bin above \<open>hi\<close> survives the filter for nonzero bins, so the array that is divided
  is empty, nothing is divided by zero, the high-partition term is the empty sum 0,
  and the entropy of the candidate is a finite number.
\<close>

theorem kapur_last_candidate:
  assumes cdf: "cdf = cumsum (map real hist)" and rng: "binrng hist = Inr (lo, hi)"
  shows "cdf ! hi - cdf ! hi = 0
     \<and> filter (\<lambda>h. h \<noteq> 0) (drop (hi + 1) hist) = []
     \<and> high_part hist cdf hi hi = []
     \<and> high_sum hist cdf hi hi = Fin 0
     \<and> (\<exists>e. cand_entropy hist cdf hi hi = Some (Fin e))"
proof -
  have f: "filter (\<lambda>h. h \<noteq> 0) (drop (hi + 1) hist) = []"
    by (rule high_part_last[OF rng])
  have hp: "high_part hist cdf hi hi = []" unfolding high_part_def f by simp
  have hs: "high_sum hist cdf hi hi = Fin 0" by (simp add: high_sum_def hp fsum_def)
  from low_entropy_Some[OF binrng_Inr(1)[OF rng] order_refl binrng_Inr(2)[OF rng]]
  obtain e where "low_entropy hist cdf hi = Some e" unfolding cdf by blast
  then have "cand_entropy hist cdf hi hi = Some (Fin e)"
    by (simp add: cand_entropy_def hs)
  then show ?thesis using f hp hs by simp
qed

theorem kapur_last_candidate_witness:
  "binrng (histogram256 [0, 1, 2, 3, 4]) = Inr (0, 4)
   \<and> high_part (histogram256 [0, 1, 2, 3, 4])
        (cumsum (map real (histogram256 [0, 1, 2, 3, 4]))) 4 4 = []
   \<and> high_sum (histogram256 [0, 1, 2, 3, 4])
        (cumsum (map real (histogram256 [0, 1, 2, 3, 4]))) 4 4 = Fin 0"
proof -
  have b: "binrng (histogram256 [0, 1, 2, 3, 4]) = Inr (0, 4)"
    unfolding hist5 by (rule binrng5)
  from kapur_last_candidate[OF refl b] show ?thesis using b by simp
qed

text \<open>
  Claim C2. The claim reads: kapur1d reports as its entropy the maximal value over
  the candidate thresholds. The code logs the variable \<open>entropy\<close>, the entropy of the
  last candidate, and not \<open>entropymax\<close>. On the image \<open>[[0, 1, 2, 3, 4]]\<close> the
  candidates 0 to 4 have the entropies \<open>ln 4\<close>, \<open>ln 6\<close>, \<open>ln 6\<close>, \<open>ln 4\<close>,
  \<open>ln 5\<close>: the running maximum ends at \<open>ln 6 = ln 2 + ln 3\<close> with threshold 1 (the
  first of the two that reach it), the entropy logged is \<open>ln 5\<close>, which is smaller,
  and the thresholded image keeps the pixels below 1.
\<close>

theorem kapur1d_logs_last_candidate:
  "case kapur1d [[0, 1, 2, 3, 4]] of
     Inl _ \<Rightarrow> False
   | Inr res \<Rightarrow> kr_entropy res = Some (Fin (ln 5))
        \<and> kr_entropymax res = Fin (ln 2 + ln 3)
        \<and> kr_threshold res = 1
        \<and> kr_entimg res = [[0, 0, 0, 0, 0]]
        \<and> ln 5 < ln 2 + ln (3::real)"
proof -
  have h: "histogram256 (concat [[0, 1, 2, 3, 4]]) = [1, 1, 1, 1, 1] @ replicate 251 0"
    using hist5 by simp
  show ?thesis
    unfolding kapur1d_def Let_def h binrng5 sum.case prod.case upt5 kapur_loop5[OF cdf5]
    by (simp add: ln_cmp)
qed

end
